theory Spec2Isabelle
  imports Complex_Main
begin

section \<open>The watcher of the test runner: data model\<close>

text \<open>
  The development embeds the watcher module of the test runner: the class
  \<^verbatim>\<open>Watcher\<close> with its \<^verbatim>\<open>Debouncer\<close> and \<^verbatim>\<open>TestDependency\<close> helpers, and the
  stdin handler and debounce callback of the generator \<^verbatim>\<open>plan\<close>, which drives
  \<^verbatim>\<open>start\<close>.

  JavaScript arrays are lists; the two \<^verbatim>\<open>Set\<close>s of the class that are only asked
  \<^verbatim>\<open>has\<close>, \<^verbatim>\<open>add\<close>, \<^verbatim>\<open>delete\<close> and \<^verbatim>\<open>clear\<close> are HOL sets; the counters are
  natural numbers (they start at 0 or 1 and are only incremented; the loss of precision of a
  JavaScript number beyond \<open>2 ^ 53\<close> is not modelled). Paths are strings.
\<close>

type_synonym path = string

text \<open>
  \<^verbatim>\<open>class TestDependency\<close>: the fields \<^verbatim>\<open>file\<close> (here \<open>dep_file\<close>, since \<open>file\<close> is
  a reserved word) and \<^verbatim>\<open>dependencies\<close>.
\<close>

record TestDependency =
  dep_file :: path
  dependencies :: "path list"

text \<open>\<^verbatim>\<open>contains(dependency)\<close> is \<^verbatim>\<open>this.dependencies.includes(dependency)\<close>.\<close>

definition contains :: "TestDependency \<Rightarrow> path \<Rightarrow> bool" where
  "contains dep dependency = (dependency \<in> set (dependencies dep))"

text \<open>
  The objects of \<^verbatim>\<open>filesWithFailures\<close>, which the source calls \<^verbatim>\<open>state\<close>:
  \<^verbatim>\<open>{file, vector, count}\<close>.
\<close>

record FailureState =
  state_file :: path
  state_vector :: nat
  state_count :: nat

section \<open>The failure ledger\<close>

text \<open>
  \<^verbatim>\<open>pruneFailures(files)\<close> keeps the states whose file is not in \<^verbatim>\<open>new Set(files)\<close>.
\<close>

definition pruneFailures :: "path list \<Rightarrow> FailureState list \<Rightarrow> FailureState list" where
  "pruneFailures files filesWithFailures =
     filter (\<lambda>state. state_file state \<notin> set files) filesWithFailures"

text \<open>
  The callback of \<^verbatim>\<open>this.filesWithFailures.some\<close> in \<^verbatim>\<open>countFailure\<close>: \<^verbatim>\<open>some\<close> stops
  at the first state for which the callback returns true, and the callback increments that
  state's count before it returns true. The result is \<open>None\<close> when \<^verbatim>\<open>some\<close> returns
  false, and the updated array otherwise.
\<close>

fun incrementFirst :: "path \<Rightarrow> FailureState list \<Rightarrow> FailureState list option" where
  "incrementFirst f [] = None"
| "incrementFirst f (state # rest) =
     (if state_file state \<noteq> f
      then map_option (\<lambda>rest'. state # rest') (incrementFirst f rest)
      else Some (state\<lparr>state_count := state_count state + 1\<rparr> # rest))"

definition countFailure :: "path \<Rightarrow> nat \<Rightarrow> FailureState list \<Rightarrow> FailureState list" where
  "countFailure f vector filesWithFailures =
     (case incrementFirst f filesWithFailures of
        Some updated \<Rightarrow> updated
      | None \<Rightarrow>
          filesWithFailures @ [\<lparr>state_file = f, state_vector = vector, state_count = 1\<rparr>])"

text \<open>
  \<^verbatim>\<open>sumPreviousFailures(beforeVector)\<close>: the loop over \<^verbatim>\<open>this.filesWithFailures\<close> with
  the accumulator \<^verbatim>\<open>total\<close> (here \<open>tot\<close>).
\<close>

fun sumLoop :: "nat \<Rightarrow> nat \<Rightarrow> FailureState list \<Rightarrow> nat" where
  "sumLoop beforeVector tot [] = tot"
| "sumLoop beforeVector tot (state # rest) =
     sumLoop beforeVector
       (if state_vector state < beforeVector then tot + state_count state else tot) rest"

definition sumPreviousFailures :: "nat \<Rightarrow> FailureState list \<Rightarrow> nat" where
  "sumPreviousFailures beforeVector filesWithFailures = sumLoop beforeVector 0 filesWithFailures"

text \<open>
  The ledgers the class can hold: it starts as \<^verbatim>\<open>[]\<close> in the constructor, and the only
  assignments to \<^verbatim>\<open>this.filesWithFailures\<close> and to its elements are those of
  \<^verbatim>\<open>pruneFailures\<close> and \<^verbatim>\<open>countFailure\<close>.
\<close>

inductive reachableLedger :: "FailureState list \<Rightarrow> bool" where
  initial: "reachableLedger []"
| counted: "reachableLedger l \<Longrightarrow> reachableLedger (countFailure f vector l)"
| pruned: "reachableLedger l \<Longrightarrow> reachableLedger (pruneFailures files l)"

section \<open>The collaborators of the watcher\<close>

text \<open>
  An element \<^verbatim>\<open>{main}\<close> of \<^verbatim>\<open>providers\<close>: the two methods of \<^verbatim>\<open>main\<close> the watcher
  calls.
\<close>

record Provider =
  ignoreChange :: "path \<Rightarrow> bool"
  resolveTestFile :: "path \<Rightarrow> path"

text \<open>The result of \<^verbatim>\<open>classify(path, globs)\<close>, as far as the watcher reads it.\<close>

record Classification =
  isIgnoredByWatcher :: bool
  isTest :: bool

text \<open>
  What the constructor of \<^verbatim>\<open>Watcher\<close> and the generator \<^verbatim>\<open>plan\<close> are given, and the
  functions they import from \<^verbatim>\<open>./globs.js\<close>, a module of its own, which are parameters
  here:
  \<^item> \<open>classify p\<close> is \<^verbatim>\<open>classify(p, this.globs)\<close>;
  \<^item> \<open>patternFilters\<close> is \<^verbatim>\<open>filter.map(({pattern}) => pattern)\<close>, so that
    \<^verbatim>\<open>filter.length > 0\<close> is \<open>patternFilters env \<noteq> []\<close>;
  \<^item> \<open>applyTestFileFilter pats testFiles\<close> is the call \<^verbatim>\<open>applyTestFileFilter({cwd: projectDir,
    expandDirectories: false, filter: pats, testFiles, treatFilterPatternsAsFiles: false})\<close>;
  \<^item> \<open>isIgnored\<close> is \<^verbatim>\<open>buildIgnoreMatcher(globs)\<close>.
\<close>

record Env =
  providers :: "Provider list"
  classify :: "path \<Rightarrow> Classification"
  patternFilters :: "string list"
  applyTestFileFilter :: "string list \<Rightarrow> path list \<Rightarrow> path list"
  isIgnored :: "path \<Rightarrow> bool"

text \<open>
  The argument of \<^verbatim>\<open>api.run\<close>: \<^verbatim>\<open>files\<close> and the five \<^verbatim>\<open>runtimeOptions\<close> (the third
  property, \<^verbatim>\<open>filter\<close>, is the constructor's argument unchanged).
\<close>

record ApiRun =
  run_files :: "path list"
  run_clearLogOnNextRun :: bool
  run_previousFailures :: nat
  run_runOnlyExclusive :: bool
  run_runVector :: nat
  run_updateSnapshots :: bool

text \<open>The counters of \<^verbatim>\<open>runStatus.stats\<close> that the watcher reads when a run settles.\<close>

record Stats =
  failedHooks :: nat
  failedTests :: nat
  failedWorkers :: nat
  internalErrors :: nat
  timeouts :: nat
  uncaughtExceptions :: nat
  unhandledRejections :: nat

section \<open>The state of the watcher\<close>

text \<open>
  \<^verbatim>\<open>class Debouncer\<close>: \<^verbatim>\<open>this.timer\<close> is \<^verbatim>\<open>null\<close> or the \<^verbatim>\<open>Timeout\<close> object that
  \<^verbatim>\<open>setTimeout\<close> returned. The source compares timers by identity
  (\<^verbatim>\<open>this.timer !== timer\<close>); every call of \<^verbatim>\<open>setTimeout\<close> returns a new object, so a timer
  is the number of \<^verbatim>\<open>setTimeout\<close> calls made before its own. \<^verbatim>\<open>this.again\<close> is undefined
  until it is first assigned, which reads as false. (\<^verbatim>\<open>this.repeat\<close> is never read.)
\<close>

record Debouncer =
  timer :: "nat option"
  again :: bool

text \<open>
  The fields of \<^verbatim>\<open>Watcher\<close>. \<^verbatim>\<open>dirtyStates\<close> is an object from paths to event names; it
  is the list of its entries in the order of \<^verbatim>\<open>Object.keys\<close>, which is the order of
  insertion for keys that are not array indices (a path such as \<^verbatim>\<open>42\<close>, which
  \<^verbatim>\<open>Object.keys\<close> would list first, is not treated apart).

  The last three fields belong to the JavaScript runtime: \<open>nextTimer\<close> counts the calls of
  \<^verbatim>\<open>setTimeout\<close>; \<open>armed\<close> holds the timers that are scheduled and have not expired, with
  the \<^verbatim>\<open>delay\<close> their callback has captured; \<open>awaiting\<close> holds the callbacks that have
  started and are suspended at \<^verbatim>\<open>await this.watcher.busy\<close>.
\<close>

record Watcher =
  debouncer :: Debouncer
  clearLogOnNextRun :: bool
  runVector :: nat
  previousFiles :: "path list"
  testDependencies :: "TestDependency list"
  temporaryFiles :: "path set"
  touchedFiles :: "path set"
  filesWithExclusiveTests :: "path list"
  filesWithFailures :: "FailureState list"
  dirtyStates :: "(path \<times> string) list"
  nextTimer :: nat
  armed :: "(nat \<times> rat) list"
  awaiting :: "(nat \<times> rat) list"

section \<open>The dependency tracker\<close>

text \<open>
  The loop over \<^verbatim>\<open>this.providers\<close> at the head of \<^verbatim>\<open>updateTestDependencies\<close>: each
  provider's rewritten path is put in front unless \<^verbatim>\<open>dependencies.includes(rewritten)\<close>.
\<close>

definition addRewritten :: "Provider list \<Rightarrow> path \<Rightarrow> path list \<Rightarrow> path list" where
  "addRewritten ps f deps =
     fold (\<lambda>main deps'.
        let rewritten = resolveTestFile main f
        in if rewritten \<in> set deps' then deps' else rewritten # deps') ps deps"

text \<open>
  The callback of \<^verbatim>\<open>this.testDependencies.some\<close>: the first entry of the file gets the new
  dependencies and stops the iteration; \<open>None\<close> when \<^verbatim>\<open>some\<close> returns false.
\<close>

fun replaceFirst :: "path \<Rightarrow> path list \<Rightarrow> TestDependency list \<Rightarrow> TestDependency list option" where
  "replaceFirst f deps [] = None"
| "replaceFirst f deps (dep # rest) =
     (if dep_file dep \<noteq> f
      then map_option (\<lambda>rest'. dep # rest') (replaceFirst f deps rest)
      else Some (dep\<lparr>dependencies := deps\<rparr> # rest))"

definition updateTestDependencies ::
  "Env \<Rightarrow> path \<Rightarrow> path list \<Rightarrow> TestDependency list \<Rightarrow> TestDependency list" where
  "updateTestDependencies env f deps tds =
     (let deps' = addRewritten (providers env) f deps
      in if length deps' = 0 then filter (\<lambda>dep. dep_file dep \<noteq> f) tds
         else (case replaceFirst f deps' tds of
                 Some tds' \<Rightarrow> tds'
               | None \<Rightarrow> tds @ [\<lparr>dep_file = f, dependencies = deps'\<rparr>]))"

section \<open>The exclusivity tracker\<close>

text \<open>
  \<^verbatim>\<open>updateExclusivity(file, hasExclusiveTests)\<close>: \<^verbatim>\<open>indexOf\<close> is \<open>-1\<close> exactly when the
  file is not in the array, and \<^verbatim>\<open>splice(index, 1)\<close> removes its first occurrence.
\<close>

definition updateExclusivity :: "path \<Rightarrow> bool \<Rightarrow> path list \<Rightarrow> path list" where
  "updateExclusivity f hasExclusiveTests fs =
     (if hasExclusiveTests \<and> f \<notin> set fs then fs @ [f]
      else if \<not> hasExclusiveTests \<and> f \<in> set fs then remove1 f fs
      else fs)"

section \<open>Dispatching a run\<close>

text \<open>
  The block \<^verbatim>\<open>if (filter.length > 0) { files = applyTestFileFilter({...}) }\<close>, which
  \<^verbatim>\<open>this.run\<close> and the debounce callback of \<^verbatim>\<open>plan\<close> both contain.
\<close>

definition filterFiles :: "Env \<Rightarrow> path list \<Rightarrow> path list" where
  "filterFiles env testFiles =
     (if length (patternFilters env) > 0
      then applyTestFileFilter env (patternFilters env) testFiles
      else testFiles)"

text \<open>
  \<^verbatim>\<open>this.run(specificFiles = [], updateSnapshots = false)\<close>, up to and including the call
  of \<^verbatim>\<open>api.run\<close>: the new state of the watcher and the argument of \<^verbatim>\<open>api.run\<close>. What
  the promise's \<^verbatim>\<open>then\<close> does when the run settles is \<open>runSettled\<close> below.
\<close>

definition run :: "Env \<Rightarrow> path list \<Rightarrow> bool \<Rightarrow> Watcher \<Rightarrow> Watcher \<times> ApiRun" where
  "run env specificFiles updateSnapshots w =
     (let clearLog = (clearLogOnNextRun w \<and> runVector w > 0);
          w1 = (if runVector w > 0 then w\<lparr>clearLogOnNextRun := True\<rparr> else w);
          w2 = w1\<lparr>runVector := runVector w1 + 1\<rparr>;
          (specificFiles', runOnlyExclusive, w3) =
            (if length specificFiles > 0 then
               let exclusiveFiles =
                     filter (\<lambda>f. f \<in> set (filesWithExclusiveTests w2)) specificFiles;
                   runOnlyExclusive =
                     (length exclusiveFiles \<noteq> length (filesWithExclusiveTests w2));
                   files1 =
                     (if runOnlyExclusive then
                        let remainingFiles =
                              filter (\<lambda>f. f \<notin> set exclusiveFiles) specificFiles
                        in filesWithExclusiveTests w2 @ remainingFiles
                      else specificFiles);
                   files2 = filterFiles env files1
               in (files2, runOnlyExclusive,
                   w2\<lparr>filesWithFailures := pruneFailures files2 (filesWithFailures w2)\<rparr>)
             else (specificFiles, False, w2));
          w4 = w3\<lparr>touchedFiles := {}, previousFiles := specificFiles'\<rparr>
      in (w4,
          \<lparr>run_files = specificFiles',
           run_clearLogOnNextRun = clearLog,
           run_previousFailures = sumPreviousFailures (runVector w4) (filesWithFailures w4),
           run_runOnlyExclusive = runOnlyExclusive,
           run_runVector = runVector w4,
           run_updateSnapshots = updateSnapshots\<rparr>))"

text \<open>The \<^verbatim>\<open>then\<close> handler of the promise of \<^verbatim>\<open>api.run\<close>, for the watcher's state.\<close>

definition runSettled :: "Stats \<Rightarrow> Watcher \<Rightarrow> Watcher" where
  "runSettled stats w =
     (if clearLogOnNextRun w \<and>
         (failedHooks stats > 0 \<or> failedTests stats > 0 \<or> failedWorkers stats > 0 \<or>
          internalErrors stats > 0 \<or> timeouts stats > 0 \<or> uncaughtExceptions stats > 0 \<or>
          unhandledRejections stats > 0)
      then w\<lparr>clearLogOnNextRun := False\<rparr> else w)"

definition rerunAll :: "Env \<Rightarrow> Watcher \<Rightarrow> Watcher \<times> ApiRun" where
  "rerunAll env w = run env [] False (w\<lparr>dirtyStates := []\<rparr>)"

definition updatePreviousSnapshots :: "Env \<Rightarrow> Watcher \<Rightarrow> Watcher \<times> ApiRun" where
  "updatePreviousSnapshots env w = run env (previousFiles w) True (w\<lparr>dirtyStates := []\<rparr>)"

text \<open>
  The constructor: the fields as it initialises them, then \<^verbatim>\<open>this.rerunAll()\<close>
  (\<^verbatim>\<open>watchFiles\<close> has an empty body, and the \<^verbatim>\<open>track...\<close> methods only subscribe to
  events).
\<close>

definition newWatcher :: Watcher where
  "newWatcher =
     \<lparr>debouncer = \<lparr>timer = None, again = False\<rparr>,
      clearLogOnNextRun = True,
      runVector = 0,
      previousFiles = [],
      testDependencies = [],
      temporaryFiles = {},
      touchedFiles = {},
      filesWithExclusiveTests = [],
      filesWithFailures = [],
      dirtyStates = [],
      nextTimer = 0,
      armed = [],
      awaiting = []\<rparr>"

definition constructor :: "Env \<Rightarrow> Watcher \<times> ApiRun" where
  "constructor env = rerunAll env newWatcher"

section \<open>Processing a batch of dirty paths\<close>

text \<open>
  \<^verbatim>\<open>cleanUnlinkedTests(unlinkedTests)\<close>: the three calls of the loop body, one test file
  after the other.
\<close>

definition cleanUnlinkedTests :: "Env \<Rightarrow> path list \<Rightarrow> Watcher \<Rightarrow> Watcher" where
  "cleanUnlinkedTests env unlinkedTests w =
     fold (\<lambda>testFile w'.
        w'\<lparr>testDependencies := updateTestDependencies env testFile [] (testDependencies w'),
           filesWithExclusiveTests :=
             updateExclusivity testFile False (filesWithExclusiveTests w'),
           filesWithFailures := pruneFailures [testFile] (filesWithFailures w')\<rparr>)
       unlinkedTests w"

text \<open>
  The first \<^verbatim>\<open>filter\<close> of \<^verbatim>\<open>runAfterChanges\<close>, over \<^verbatim>\<open>Object.keys(dirtyStates)\<close>: its
  callback deletes a touched path from \<^verbatim>\<open>this.touchedFiles\<close>, so the set is threaded
  through. The result is the paths kept and the touched files left.
\<close>

fun dropKnown :: "path set \<Rightarrow> path set \<Rightarrow> path list \<Rightarrow> path list \<times> path set" where
  "dropKnown temporary touched [] = ([], touched)"
| "dropKnown temporary touched (p # ps) =
     (if p \<in> touched then dropKnown temporary (touched - {p}) ps
      else if p \<in> temporary then dropKnown temporary touched ps
      else (let (kept, touched') = dropKnown temporary touched ps in (p # kept, touched')))"

text \<open>The loop over \<^verbatim>\<open>this.providers\<close>, each filtering \<^verbatim>\<open>dirtyPaths\<close> again.\<close>

definition dropIgnoredChanges :: "Provider list \<Rightarrow> path list \<Rightarrow> path list" where
  "dropIgnoredChanges ps dirtyPaths =
     fold (\<lambda>main paths. filter (\<lambda>p. \<not> ignoreChange main p) paths) ps dirtyPaths"

text \<open>
  The loop that sorts \<^verbatim>\<open>dirtyPaths\<close> into \<^verbatim>\<open>dirtyHelpersAndSources\<close>,
  \<^verbatim>\<open>addedOrChangedTests\<close> and \<^verbatim>\<open>unlinkedTests\<close>, in this order in the result.
\<close>

fun sortPaths ::
  "Env \<Rightarrow> (path \<times> string) list \<Rightarrow> path list \<Rightarrow> path list \<times> path list \<times> path list" where
  "sortPaths env states [] = ([], [], [])"
| "sortPaths env states (filePath # rest) =
     (let (dirtyHelpersAndSources, addedOrChangedTests, unlinkedTests) =
            sortPaths env states rest;
          c = classify env filePath
      in if \<not> isIgnoredByWatcher c then
           (if isTest c then
              (if map_of states filePath = Some ''unlink''
               then (dirtyHelpersAndSources, addedOrChangedTests, filePath # unlinkedTests)
               else (dirtyHelpersAndSources, filePath # addedOrChangedTests, unlinkedTests))
            else (filePath # dirtyHelpersAndSources, addedOrChangedTests, unlinkedTests))
         else (dirtyHelpersAndSources, addedOrChangedTests, unlinkedTests))"

text \<open>
  The tests that depend on a changed path:
  \<^verbatim>\<open>this.testDependencies.filter(dep => dep.contains(path)).map(dep => dep.file)\<close>.
\<close>

definition dependentsOf :: "TestDependency list \<Rightarrow> path \<Rightarrow> path list" where
  "dependentsOf tds p = map dep_file (filter (\<lambda>dep. contains dep p) tds)"

text \<open>\<^verbatim>\<open>[...new Set(xs)]\<close>: the elements in the order of their first occurrence.\<close>

definition newSet :: "'a list \<Rightarrow> 'a list" where
  "newSet xs = fold (\<lambda>x s. if x \<in> set s then s else s @ [x]) xs []"

text \<open>
  The paths \<^verbatim>\<open>runAfterChanges\<close> works on after its two rounds of filtering, with the
  touched files that are left.
\<close>

definition survivingPaths :: "Env \<Rightarrow> Watcher \<Rightarrow> path list \<times> path set" where
  "survivingPaths env w =
     (let (kept, touched') =
            dropKnown (temporaryFiles w) (touchedFiles w) (map fst (dirtyStates w))
      in (dropIgnoredChanges (providers env) kept, touched'))"

text \<open>
  \<^verbatim>\<open>runAfterChanges()\<close>: the new state, and the argument of \<^verbatim>\<open>api.run\<close> when a run is
  dispatched. \<^verbatim>\<open>[addedOrChangedTests, testsByHelpersOrSource].flat(2)\<close> is the changed
  tests followed by the dependents of each helper or source.
\<close>

definition runAfterChanges :: "Env \<Rightarrow> Watcher \<Rightarrow> Watcher \<times> ApiRun option" where
  "runAfterChanges env w =
     (let states = dirtyStates w;
          (dirtyPaths, touched') = survivingPaths env w;
          w1 = w\<lparr>dirtyStates := [], touchedFiles := touched'\<rparr>;
          (dirtyHelpersAndSources, addedOrChangedTests, unlinkedTests) =
            sortPaths env states dirtyPaths;
          w2 = cleanUnlinkedTests env unlinkedTests w1
      in if length unlinkedTests = length dirtyPaths then (w2, None)
         else if length dirtyHelpersAndSources = 0 then
           map_prod id Some (run env addedOrChangedTests False w2)
         else
           let testsByHelpersOrSource =
                 filter (\<lambda>tests. length tests > 0)
                   (map (dependentsOf (testDependencies w2)) dirtyHelpersAndSources)
           in if length testsByHelpersOrSource \<noteq> length dirtyHelpersAndSources
              then map_prod id Some (run env [] False w2)
              else map_prod id Some
                     (run env (newSet (addedOrChangedTests @ concat testsByHelpersOrSource))
                        False w2))"

section \<open>The batch in the words of the specification\<close>






section \<open>The debouncer\<close>

definition MIN_DEBOUNCE_DELAY :: rat where
  "MIN_DEBOUNCE_DELAY = 10"

definition INITIAL_DEBOUNCE_DELAY :: rat where
  "INITIAL_DEBOUNCE_DELAY = 100"

text \<open>
  \<^verbatim>\<open>debounce(delay)\<close>, up to the return of \<^verbatim>\<open>setTimeout\<close>. The argument is \<open>None\<close> for
  \<^verbatim>\<open>undefined\<close>; \<^verbatim>\<open>undefined\<close> and \<open>0\<close> are the falsy delays. The delays that occur are
  halves of delays of at least 10, which a JavaScript number holds exactly (\<^verbatim>\<open>NaN\<close> and
  the infinities are not modelled).
\<close>

definition debounce :: "rat option \<Rightarrow> Watcher \<Rightarrow> Watcher" where
  "debounce delay w =
     (if timer (debouncer w) \<noteq> None then w\<lparr>debouncer := (debouncer w)\<lparr>again := True\<rparr>\<rparr>
      else
        let delay' = (case delay of
                        None \<Rightarrow> INITIAL_DEBOUNCE_DELAY
                      | Some d \<Rightarrow>
                          if d \<noteq> 0 then max d MIN_DEBOUNCE_DELAY else INITIAL_DEBOUNCE_DELAY);
            t = nextTimer w
        in w\<lparr>nextTimer := t + 1,
              armed := armed w @ [(t, delay')],
              debouncer := (debouncer w)\<lparr>timer := Some t\<rparr>\<rparr>)"

text \<open>
  \<^verbatim>\<open>cancel()\<close>: \<^verbatim>\<open>clearTimeout\<close> unschedules the timer when it has not expired, and does
  nothing to a callback that has started.
\<close>

definition cancel :: "Watcher \<Rightarrow> Watcher" where
  "cancel w =
     (case timer (debouncer w) of
        Some t \<Rightarrow>
          w\<lparr>armed := filter (\<lambda>(t', d). t' \<noteq> t) (armed w),
            debouncer := (debouncer w)\<lparr>timer := None, again := False\<rparr>\<rparr>
      | None \<Rightarrow> w)"

text \<open>
  The timer \<open>t\<close> expires: the runtime calls its callback, which suspends at
  \<^verbatim>\<open>await this.watcher.busy\<close>. A timer that is not scheduled does not expire.
\<close>

definition expire :: "nat \<Rightarrow> Watcher \<Rightarrow> Watcher" where
  "expire t w =
     (case map_of (armed w) t of
        Some delay \<Rightarrow>
          w\<lparr>armed := filter (\<lambda>(t', d). t' \<noteq> t) (armed w), awaiting := awaiting w @ [(t, delay)]\<rparr>
      | None \<Rightarrow> w)"

text \<open>
  The rest of the callback of timer \<open>t\<close> with the captured \<open>delay\<close>, from the guard
  \<^verbatim>\<open>this.timer !== timer\<close> on.
\<close>

definition callback :: "Env \<Rightarrow> nat \<Rightarrow> rat \<Rightarrow> Watcher \<Rightarrow> Watcher \<times> ApiRun option" where
  "callback env t delay w =
     (if timer (debouncer w) \<noteq> Some t then (w, None)
      else if again (debouncer w) then
        (debounce (Some (delay / 2)) (w\<lparr>debouncer := (debouncer w)\<lparr>timer := None, again := False\<rparr>\<rparr>),
         None)
      else
        let (w', dispatched) = runAfterChanges env w
        in (w'\<lparr>debouncer := (debouncer w')\<lparr>timer := None, again := False\<rparr>\<rparr>, dispatched))"

text \<open>
  A suspended callback resumes once the promise it awaits is fulfilled. Which run was in
  flight when it suspended is not recorded: \<open>resume\<close> may be taken at any later moment,
  which covers every moment at which the runtime can take it.
\<close>

definition resume :: "Env \<Rightarrow> nat \<Rightarrow> Watcher \<Rightarrow> Watcher \<times> ApiRun option" where
  "resume env t w =
     (case map_of (awaiting w) t of
        Some delay \<Rightarrow>
          callback env t delay (w\<lparr>awaiting := filter (\<lambda>(t', d). t' \<noteq> t) (awaiting w)\<rparr>)
      | None \<Rightarrow> (w, None))"

section \<open>Control input\<close>

text \<open>
  The input of the \<^verbatim>\<open>data\<close> handlers is a JavaScript string, decoded from UTF-8; it is
  the list of its UTF-8 bytes here, so that an ASCII character is one \<open>char\<close> and any other
  code point a sequence of two to four.

  \<^verbatim>\<open>String.prototype.trim\<close> strips the white space and the line terminators of
  ECMAScript from both ends: U+0009 to U+000D, U+0020, U+00A0, U+1680, U+2000 to U+200A,
  U+2028, U+2029, U+202F, U+205F, U+3000 and U+FEFF. \<open>whiteSpace\<close> lists their encodings.
  No encoding is the head or the tail of another, so stripping the listed byte sequences
  from the ends of the bytes is stripping the code points from the ends of the string.
\<close>

definition whiteSpace :: "string list" where
  "whiteSpace =
     [[CHR 0x09], [CHR 0x0A], [CHR 0x0B], [CHR 0x0C], [CHR 0x0D], [CHR 0x20],
      [CHR 0xC2, CHR 0xA0],
      [CHR 0xE1, CHR 0x9A, CHR 0x80],
      [CHR 0xE2, CHR 0x80, CHR 0x80], [CHR 0xE2, CHR 0x80, CHR 0x81],
      [CHR 0xE2, CHR 0x80, CHR 0x82], [CHR 0xE2, CHR 0x80, CHR 0x83],
      [CHR 0xE2, CHR 0x80, CHR 0x84], [CHR 0xE2, CHR 0x80, CHR 0x85],
      [CHR 0xE2, CHR 0x80, CHR 0x86], [CHR 0xE2, CHR 0x80, CHR 0x87],
      [CHR 0xE2, CHR 0x80, CHR 0x88], [CHR 0xE2, CHR 0x80, CHR 0x89],
      [CHR 0xE2, CHR 0x80, CHR 0x8A],
      [CHR 0xE2, CHR 0x80, CHR 0xA8], [CHR 0xE2, CHR 0x80, CHR 0xA9],
      [CHR 0xE2, CHR 0x80, CHR 0xAF],
      [CHR 0xE2, CHR 0x81, CHR 0x9F],
      [CHR 0xE3, CHR 0x80, CHR 0x80],
      [CHR 0xEF, CHR 0xBB, CHR 0xBF]]"

text \<open>
  Strips from the front of a string every leading occurrence of a sequence of the table.
  (The sequences of the tables used are not empty: the one found is the first byte and
  \<open>length ws - 1\<close> more.)
\<close>

fun stripLeading :: "string list \<Rightarrow> string \<Rightarrow> string" where
  "stripLeading table [] = []"
| "stripLeading table (c # cs) =
     (case find (\<lambda>ws. take (length ws) (c # cs) = ws) table of
        None \<Rightarrow> c # cs
      | Some ws \<Rightarrow> stripLeading table (drop (length ws - 1) cs))"

definition trim :: "string \<Rightarrow> string" where
  "trim s = rev (stripLeading (map rev whiteSpace) (rev (stripLeading whiteSpace s)))"

text \<open>
  \<^verbatim>\<open>String.prototype.toLowerCase\<close>: the letters \<^verbatim>\<open>A\<close> to \<^verbatim>\<open>Z\<close> become \<^verbatim>\<open>a\<close> to
  \<^verbatim>\<open>z\<close>. The bytes of the code points beyond ASCII are left as they are. The watcher only
  compares the result with \<^verbatim>\<open>r\<close>, \<^verbatim>\<open>rs\<close> and \<^verbatim>\<open>u\<close>, and no code point beyond ASCII
  has \<^verbatim>\<open>r\<close>, \<^verbatim>\<open>s\<close> or \<^verbatim>\<open>u\<close> in its lower-case form (the only ones with an ASCII
  letter in it are U+212A, which becomes \<^verbatim>\<open>k\<close>, and U+0130, which becomes \<^verbatim>\<open>i\<close> and
  U+0307), so these comparisons come out as in JavaScript.
\<close>

definition toLowerCase :: "string \<Rightarrow> string" where
  "toLowerCase s =
     map (\<lambda>c. case map_of (zip ''ABCDEFGHIJKLMNOPQRSTUVWXYZ'' ''abcdefghijklmnopqrstuvwxyz'') c of
                 Some l \<Rightarrow> l
               | None \<Rightarrow> c) s"

text \<open>
  The \<^verbatim>\<open>data\<close> handler of \<^verbatim>\<open>observeStdin\<close> up to \<^verbatim>\<open>await this.busy\<close>: the state, and
  the normalised command when the handler suspends there (\<open>None\<close> when it has returned).
\<close>

definition stdinData :: "string \<Rightarrow> Watcher \<Rightarrow> Watcher \<times> string option" where
  "stdinData input w =
     (let data = toLowerCase (trim input)
      in if data \<noteq> ''r'' \<and> data \<noteq> ''rs'' \<and> data \<noteq> ''u'' then (w, None)
         else (cancel w, Some data))"

text \<open>The handler from \<^verbatim>\<open>await this.busy\<close> on, for the normalised command \<open>data\<close>.\<close>

definition stdinResume :: "Env \<Rightarrow> string \<Rightarrow> Watcher \<Rightarrow> Watcher \<times> ApiRun" where
  "stdinResume env data w =
     (let w1 = cancel w;
          w2 = w1\<lparr>clearLogOnNextRun := False\<rparr>
      in if data = ''u'' then updatePreviousSnapshots env w2 else rerunAll env w2)"

text \<open>
  The whole handler when nothing else runs while it awaits: the state and the argument of
  \<^verbatim>\<open>api.run\<close>, if it dispatches.
\<close>

definition observeStdin :: "Env \<Rightarrow> string \<Rightarrow> Watcher \<Rightarrow> Watcher \<times> ApiRun option" where
  "observeStdin env input w =
     (case stdinData input w of
        (w', None) \<Rightarrow> (w', None)
      | (w', Some data) \<Rightarrow> map_prod id Some (stdinResume env data w'))"

section \<open>Run telemetry\<close>

text \<open>
  The handlers the \<^verbatim>\<open>track...\<close> methods subscribe. An \<^verbatim>\<open>accessed-snapshots\<close> event
  carries \<^verbatim>\<open>testFile\<close> and \<^verbatim>\<open>filename\<close>.
\<close>

definition onAccessedSnapshots :: "Env \<Rightarrow> path \<Rightarrow> path \<Rightarrow> Watcher \<Rightarrow> Watcher" where
  "onAccessedSnapshots env testFile filename w =
     (let deps = filter (\<lambda>filePath. \<not> isIgnoredByWatcher (classify env filePath)) [filename]
      in w\<lparr>testDependencies := updateTestDependencies env testFile deps (testDependencies w)\<rparr>)"

text \<open>A \<^verbatim>\<open>touched-files\<close> event carries \<^verbatim>\<open>changedFiles\<close> and \<^verbatim>\<open>temporaryFiles\<close>.\<close>

definition onTouchedFiles :: "path list \<Rightarrow> path list \<Rightarrow> Watcher \<Rightarrow> Watcher" where
  "onTouchedFiles changedFiles temporary w =
     w\<lparr>touchedFiles := touchedFiles w \<union> set changedFiles,
       temporaryFiles := temporaryFiles w \<union> set temporary\<rparr>"

text \<open>
  A \<^verbatim>\<open>worker-finished\<close> event carries \<^verbatim>\<open>testFile\<close>; \<^verbatim>\<open>selectedTests\<close> and
  \<^verbatim>\<open>declaredTests\<close> are read from the statistics of the run.
\<close>

definition onWorkerFinished :: "path \<Rightarrow> nat \<Rightarrow> nat \<Rightarrow> Watcher \<Rightarrow> Watcher" where
  "onWorkerFinished testFile selectedTests declaredTests w =
     (let ranExclusiveTests = (selectedTests > 0 \<and> declaredTests > selectedTests)
      in w\<lparr>filesWithExclusiveTests :=
             updateExclusivity testFile ranExclusiveTests (filesWithExclusiveTests w)\<rparr>)"

text \<open>
  \<^verbatim>\<open>trackFailures\<close>: on the \<^verbatim>\<open>run\<close> event the failures of \<^verbatim>\<open>plan.files\<close> are pruned
  (and \<^verbatim>\<open>this.runVector\<close> is captured as \<^verbatim>\<open>currentVector\<close>); a failure event without a
  \<^verbatim>\<open>testFile\<close> (undefined, here \<open>None\<close>, or empty) is skipped.
\<close>

definition onRun :: "path list \<Rightarrow> Watcher \<Rightarrow> Watcher" where
  "onRun planFiles w = w\<lparr>filesWithFailures := pruneFailures planFiles (filesWithFailures w)\<rparr>"

definition onFailure :: "path option \<Rightarrow> nat \<Rightarrow> Watcher \<Rightarrow> Watcher" where
  "onFailure testFile currentVector w =
     (case testFile of
        None \<Rightarrow> w
      | Some f \<Rightarrow>
          if f = [] then w
          else w\<lparr>filesWithFailures := countFailure f currentVector (filesWithFailures w)\<rparr>)"

section \<open>A watch session of the class\<close>

text \<open>
  \<^verbatim>\<open>dirtyStates[path] = kind\<close>: an existing property keeps its place among the keys, a new
  one comes last. (The body of \<^verbatim>\<open>watchFiles\<close> is empty; the assignment is what fills
  \<^verbatim>\<open>dirtyStates\<close>.)
\<close>

fun setProperty :: "path \<Rightarrow> string \<Rightarrow> (path \<times> string) list \<Rightarrow> (path \<times> string) list" where
  "setProperty p kind [] = [(p, kind)]"
| "setProperty p kind ((q, k) # rest) =
     (if q = p then (q, kind) # rest else (q, k) # setProperty p kind rest)"

text \<open>
  What can happen to a watcher after its construction: calls from the file system watch
  (\<open>Dirty\<close>, \<open>Debounce\<close>), from other code (\<open>Cancel\<close>), from the runtime (\<open>Expire\<close>,
  \<open>Resume\<close>, \<open>StdinData\<close>, \<open>StdinResume\<close>) and from the execution engine (the
  telemetry of a run, and \<open>Settled\<close> when its promise is fulfilled).
\<close>

datatype Event =
    Dirty path string
  | Debounce "rat option"
  | Cancel
  | Expire nat
  | Resume nat
  | StdinData string
  | StdinResume string
  | AccessedSnapshots path path
  | TouchedFiles "path list" "path list"
  | WorkerFinished path nat nat
  | RunEvent "path list"
  | Failure "path option" nat
  | Settled Stats

fun step :: "Env \<Rightarrow> Event \<Rightarrow> Watcher \<Rightarrow> Watcher \<times> ApiRun option" where
  "step env (Dirty p kind) w = (w\<lparr>dirtyStates := setProperty p kind (dirtyStates w)\<rparr>, None)"
| "step env (Debounce delay) w = (debounce delay w, None)"
| "step env Cancel w = (cancel w, None)"
| "step env (Expire t) w = (expire t w, None)"
| "step env (Resume t) w = resume env t w"
| "step env (StdinData input) w = (fst (stdinData input w), None)"
| "step env (StdinResume data) w =
     (if data = ''r'' \<or> data = ''rs'' \<or> data = ''u''
      then map_prod id Some (stdinResume env data w) else (w, None))"
| "step env (AccessedSnapshots testFile filename) w =
     (onAccessedSnapshots env testFile filename w, None)"
| "step env (TouchedFiles changedFiles temporary) w =
     (onTouchedFiles changedFiles temporary w, None)"
| "step env (WorkerFinished testFile selectedTests declaredTests) w =
     (onWorkerFinished testFile selectedTests declaredTests w, None)"
| "step env (RunEvent planFiles) w = (onRun planFiles w, None)"
| "step env (Failure testFile currentVector) w = (onFailure testFile currentVector w, None)"
| "step env (Settled stats) w = (runSettled stats w, None)"

text \<open>A sequence of events: the final state and the runs dispatched, in order.\<close>

fun steps :: "Env \<Rightarrow> Event list \<Rightarrow> Watcher \<Rightarrow> Watcher \<times> ApiRun list" where
  "steps env [] w = (w, [])"
| "steps env (ev # evs) w =
     (let (w1, dispatched) = step env ev w;
          (w2, later) = steps env evs w1
      in (w2, (case dispatched of None \<Rightarrow> [] | Some r \<Rightarrow> [r]) @ later))"

section \<open>The generator \<^verbatim>\<open>plan\<close>\<close>

text \<open>
  The variables of the closure of \<^verbatim>\<open>plan\<close>. \<open>changed\<close> is the promise \<^verbatim>\<open>changed\<close>:
  \<open>None\<close> while it is pending, \<open>Some files\<close> once it is resolved. \<^verbatim>\<open>dirtyPaths\<close> is a
  \<^verbatim>\<open>Set\<close> that is iterated, so it is the list of its elements in insertion order.
\<close>

record Plan =
  plan_filesWithExclusiveTests :: "path set"
  plan_touchedFiles :: "path set"
  plan_temporaryFiles :: "path set"
  changed :: "path list option"
  firstRun :: bool
  runAll :: bool
  updateSnapshots :: bool
  dirtyPaths :: "path list"

text \<open>The \<^verbatim>\<open>instructions\<close> the generator yields.\<close>

record Instructions =
  ins_files :: "path list"
  ins_firstRun :: bool
  ins_previousFailures :: nat
  ins_runOnlyExclusive :: bool
  ins_updateSnapshots :: bool

text \<open>The variables as \<^verbatim>\<open>plan\<close> declares them.\<close>

definition newPlan :: Plan where
  "newPlan =
     \<lparr>plan_filesWithExclusiveTests = {},
      plan_touchedFiles = {},
      plan_temporaryFiles = {},
      changed = Some [],
      firstRun = True,
      runAll = True,
      updateSnapshots = False,
      dirtyPaths = []\<rparr>"

text \<open>
  \<^verbatim>\<open>signalChanged(files)\<close> resolves the promise; resolving a resolved promise does
  nothing. (The variable \<^verbatim>\<open>signalChanged\<close> is assigned by the first \<^verbatim>\<open>reset()\<close>, in
  the first turn of the loop, which is taken before the runtime delivers any event: the
  handlers below are run on states that a \<open>reset\<close> has produced.)
\<close>

definition signalChanged :: "path list \<Rightarrow> Plan \<Rightarrow> Plan" where
  "signalChanged fs p = (case changed p of None \<Rightarrow> p\<lparr>changed := Some fs\<rparr> | Some _ \<Rightarrow> p)"

definition reset :: "Plan \<Rightarrow> Plan" where
  "reset p = p\<lparr>changed := None, firstRun := False, runAll := False, updateSnapshots := False\<rparr>"

text \<open>
  One turn of the \<^verbatim>\<open>while (true)\<close> loop, taken when \<^verbatim>\<open>await changed\<close> returns: the
  instructions yielded and the state after \<^verbatim>\<open>reset()\<close>; \<open>None\<close> while the promise is
  pending.
\<close>

definition planNext :: "Plan \<Rightarrow> (Instructions \<times> Plan) option" where
  "planNext p =
     (case changed p of
        None \<Rightarrow> None
      | Some fs \<Rightarrow>
          Some (\<lparr>ins_files = fs,
                 ins_firstRun = firstRun p,
                 ins_previousFailures = 0,
                 ins_runOnlyExclusive = False,
                 ins_updateSnapshots = updateSnapshots p\<rparr>,
                reset p))"

text \<open>The \<^verbatim>\<open>data\<close> handler of \<^verbatim>\<open>stdin\<close> in \<^verbatim>\<open>plan\<close>.\<close>

definition planStdin :: "string \<Rightarrow> Plan \<Rightarrow> Plan" where
  "planStdin input p =
     (let data = toLowerCase (trim input);
          p1 = p\<lparr>runAll := (runAll p \<or> data = ''r'')\<rparr>;
          p2 = p1\<lparr>updateSnapshots := (updateSnapshots p1 \<or> data = ''u'')\<rparr>
      in if runAll p2 \<or> updateSnapshots p2 then signalChanged [] p2 else p2)"

text \<open>
  The \<^verbatim>\<open>touched-files\<close> and \<^verbatim>\<open>worker-finished\<close> cases of the \<^verbatim>\<open>stateChange\<close> handler
  in \<^verbatim>\<open>plan\<close>; the paths of the former are the results of
  \<^verbatim>\<open>nodePath.relative(projectDir, file)\<close>.
\<close>

definition planTouchedFiles :: "path list \<Rightarrow> path list \<Rightarrow> Plan \<Rightarrow> Plan" where
  "planTouchedFiles changedFiles temporary p =
     p\<lparr>plan_touchedFiles := plan_touchedFiles p \<union> set changedFiles,
       plan_temporaryFiles := plan_temporaryFiles p \<union> set temporary\<rparr>"

definition planWorkerFinished :: "path \<Rightarrow> nat \<Rightarrow> nat \<Rightarrow> Plan \<Rightarrow> Plan" where
  "planWorkerFinished testFile selectedTests declaredTests p =
     (if selectedTests > 0 \<and> declaredTests > selectedTests
      then p\<lparr>plan_filesWithExclusiveTests := insert testFile (plan_filesWithExclusiveTests p)\<rparr>
      else p\<lparr>plan_filesWithExclusiveTests := plan_filesWithExclusiveTests p - {testFile}\<rparr>)"

text \<open>The callback of \<^verbatim>\<open>fs.watch\<close>: \<^verbatim>\<open>dirtyPaths.add(filename)\<close>.\<close>

definition planFsEvent :: "path \<Rightarrow> Plan \<Rightarrow> Plan" where
  "planFsEvent filename p =
     (if filename \<in> set (dirtyPaths p) then p else p\<lparr>dirtyPaths := dirtyPaths p @ [filename]\<rparr>)"

text \<open>The callback of the \<^verbatim>\<open>debounce\<close> timer of \<^verbatim>\<open>plan\<close>.\<close>

definition planDebounce :: "Env \<Rightarrow> Plan \<Rightarrow> Plan" where
  "planDebounce env p =
     (if length (dirtyPaths p) = 0 then p
      else
        let testFiles =
              filter (\<lambda>path.
                 if path \<in> plan_temporaryFiles p then False
                 else if path \<in> plan_touchedFiles p then False
                 else if list_ex (\<lambda>main. ignoreChange main path) (providers env) then False
                 else if isIgnored env path then False
                 else if \<not> isTest (classify env path) then False
                 else True) (dirtyPaths p);
            p1 = p\<lparr>dirtyPaths := [], plan_temporaryFiles := {}, plan_touchedFiles := {}\<rparr>;
            testFiles' = filterFiles env testFiles
        in if length testFiles' > 0 then signalChanged testFiles' p1 else p1)"

section \<open>Example collaborators\<close>

text \<open>
  Concrete collaborators for the examples below: a classifier that takes the paths under
  \<^verbatim>\<open>test/\<close> for tests and ignores those under \<^verbatim>\<open>node_modules/\<close>, no pattern filter, and
  a provider in the manner of a TypeScript provider, which resolves a test file to its
  compiled path under \<^verbatim>\<open>build/\<close> and ignores changes there.
\<close>

definition exampleEnv :: "Provider list \<Rightarrow> Env" where
  "exampleEnv ps =
     \<lparr>providers = ps,
      classify = (\<lambda>p. \<lparr>isIgnoredByWatcher = (take 13 p = ''node_modules/''),
                        isTest = (take 5 p = ''test/'')\<rparr>),
      patternFilters = [],
      applyTestFileFilter = (\<lambda>pats testFiles. testFiles),
      isIgnored = (\<lambda>p. take 13 p = ''node_modules/'')\<rparr>"

definition exampleProvider :: Provider where
  "exampleProvider =
     \<lparr>ignoreChange = (\<lambda>p. take 6 p = ''build/''),
      resolveTestFile = (\<lambda>f. ''build/'' @ f)\<rparr>"

text \<open>
  A watcher right after its construction, with the given dependency entries and dirty
  states.
\<close>

definition exampleWatcher :: "Env \<Rightarrow> TestDependency list \<Rightarrow> (path \<times> string) list \<Rightarrow> Watcher" where
  "exampleWatcher env tds states =
     (fst (constructor env))\<lparr>testDependencies := tds, dirtyStates := states\<rparr>"

section \<open>Timers of a session\<close>

text \<open>
  What the debouncer and the runtime maintain about timers, relative to a number \<open>n\<close> of
  timers created earlier: the current timer is among those created since, a scheduled timer
  is the current one and its callback has not started, and the timers of the suspended
  callbacks have been created.
\<close>

definition timersFrom :: "nat \<Rightarrow> Watcher \<Rightarrow> bool" where
  "timersFrom n w =
     (n \<le> nextTimer w \<and>
      (\<forall>x. timer (debouncer w) = Some x \<longrightarrow> n \<le> x \<and> x < nextTimer w) \<and>
      (\<forall>x \<in> fst ` set (armed w). timer (debouncer w) = Some x \<and> x \<notin> fst ` set (awaiting w)) \<and>
      (\<forall>x \<in> fst ` set (awaiting w). x < nextTimer w))"

section \<open>Facts about the failure ledger\<close>

lemma incrementFirst_None: "incrementFirst f l = None \<longleftrightarrow> f \<notin> state_file ` set l"
  by (induction l) auto

lemma incrementFirst_files:
  "incrementFirst f l = Some l' \<Longrightarrow> map state_file l' = map state_file l"
  by (induction l arbitrary: l') (auto split: if_splits)

lemma incrementFirst_vectors:
  "incrementFirst f l = Some l' \<Longrightarrow> map state_vector l' = map state_vector l"
  by (induction l arbitrary: l') (auto split: if_splits)

lemma incrementFirst_split:
  "incrementFirst f l = Some l' \<Longrightarrow>
     \<exists>before state after. l = before @ state # after \<and> f \<notin> state_file ` set before \<and>
       state_file state = f \<and>
       l' = before @ state\<lparr>state_count := state_count state + 1\<rparr> # after"
proof (induction l arbitrary: l')
  case Nil
  then show ?case by simp
next
  case (Cons a l)
  show ?case
  proof (cases "state_file a = f")
    case True
    with Cons.prems have "l' = a\<lparr>state_count := state_count a + 1\<rparr> # l" by simp
    with True have "a # l = [] @ a # l \<and> f \<notin> state_file ` set [] \<and> state_file a = f \<and>
       l' = [] @ a\<lparr>state_count := state_count a + 1\<rparr> # l" by simp
    then show ?thesis by blast
  next
    case False
    with Cons.prems obtain r where r: "incrementFirst f l = Some r" and l': "l' = a # r"
      by auto
    from Cons.IH [OF r] obtain before state after where
      "l = before @ state # after" "f \<notin> state_file ` set before" "state_file state = f"
      "r = before @ state\<lparr>state_count := state_count state + 1\<rparr> # after"
      by blast
    with False l' have "a # l = (a # before) @ state # after \<and>
       f \<notin> state_file ` set (a # before) \<and> state_file state = f \<and>
       l' = (a # before) @ state\<lparr>state_count := state_count state + 1\<rparr> # after"
      by auto
    then show ?thesis by blast
  qed
qed

lemma sumLoop_total:
  "sumLoop g tot l =
     tot + sum_list (map state_count (filter (\<lambda>state. state_vector state < g) l))"
  by (induction l arbitrary: tot) auto

lemma countFailure_distinct:
  "distinct (map state_file l) \<Longrightarrow> distinct (map state_file (countFailure f vector l))"
  by (auto simp: countFailure_def incrementFirst_None incrementFirst_files
      split: option.splits)

lemma pruneFailures_distinct:
  "distinct (map state_file l) \<Longrightarrow> distinct (map state_file (pruneFailures files l))"
  by (simp add: pruneFailures_def distinct_map_filter)

lemma reachableLedger_distinct: "reachableLedger l \<Longrightarrow> distinct (map state_file l)"
  by (induction rule: reachableLedger.induct)
    (simp_all add: countFailure_distinct pruneFailures_distinct)

section \<open>Claims about the failure ledger\<close>

text \<open>
  Claim C5. Recording a failure of file \<open>f\<close> at generation \<open>g\<close> appends the record
  \<open>(f, g, 1)\<close> when the ledger has no record of \<open>f\<close>; otherwise it increments the count of
  the first record of \<open>f\<close> in place and leaves that record's generation, and every other
  record, as they were. \<open>sumPreviousFailures g'\<close> is the sum of the counts of exactly the
  records whose generation is below \<open>g'\<close>. In particular, two failures of a file without a
  record, both at generation 1, add 2 to \<open>sumPreviousFailures 2\<close>: from the empty ledger it
  is 2.
\<close>

theorem countFailure_sumPreviousFailures:
  "(f \<notin> state_file ` set l \<longrightarrow>
      countFailure f g l = l @ [\<lparr>state_file = f, state_vector = g, state_count = 1\<rparr>]) \<and>
   (f \<in> state_file ` set l \<longrightarrow>
      (\<exists>before state after.
         l = before @ state # after \<and> f \<notin> state_file ` set before \<and> state_file state = f \<and>
         countFailure f g l =
           before @ \<lparr>state_file = f, state_vector = state_vector state,
                      state_count = state_count state + 1\<rparr> # after)) \<and>
   sumPreviousFailures g' l =
     sum_list (map state_count (filter (\<lambda>state. state_vector state < g') l)) \<and>
   (f \<notin> state_file ` set l \<longrightarrow>
      sumPreviousFailures 2 (countFailure f 1 (countFailure f 1 l)) =
        sumPreviousFailures 2 l + 2)"
proof (intro conjI impI)
  assume "f \<notin> state_file ` set l"
  then have "incrementFirst f l = None" by (simp add: incrementFirst_None)
  then show "countFailure f g l = l @ [\<lparr>state_file = f, state_vector = g, state_count = 1\<rparr>]"
    by (simp add: countFailure_def)
next
  assume "f \<in> state_file ` set l"
  then obtain l' where l': "incrementFirst f l = Some l'"
    using incrementFirst_None [of f l] by (cases "incrementFirst f l") auto
  from incrementFirst_split [OF l'] obtain before state after where
    *: "l = before @ state # after" "f \<notin> state_file ` set before" "state_file state = f"
    "l' = before @ state\<lparr>state_count := state_count state + 1\<rparr> # after"
    by blast
  have "state\<lparr>state_count := state_count state + 1\<rparr> =
      \<lparr>state_file = f, state_vector = state_vector state, state_count = state_count state + 1\<rparr>"
    using *(3) by simp
  with * l' have "l = before @ state # after \<and> f \<notin> state_file ` set before \<and>
         state_file state = f \<and>
         countFailure f g l =
           before @ \<lparr>state_file = f, state_vector = state_vector state,
                      state_count = state_count state + 1\<rparr> # after"
    by (simp add: countFailure_def)
  then show "\<exists>before state after.
         l = before @ state # after \<and> f \<notin> state_file ` set before \<and> state_file state = f \<and>
         countFailure f g l =
           before @ \<lparr>state_file = f, state_vector = state_vector state,
                      state_count = state_count state + 1\<rparr> # after"
    by blast
next
  show "sumPreviousFailures g' l =
     sum_list (map state_count (filter (\<lambda>state. state_vector state < g') l))"
    by (simp add: sumPreviousFailures_def sumLoop_total)
next
  assume a: "f \<notin> state_file ` set l"
  then have "incrementFirst f l = None" by (simp add: incrementFirst_None)
  then have 1: "countFailure f 1 l = l @ [\<lparr>state_file = f, state_vector = 1, state_count = 1\<rparr>]"
    by (simp add: countFailure_def)
  have 2: "incrementFirst f (l @ [\<lparr>state_file = f, state_vector = 1, state_count = 1\<rparr>]) =
      Some (l @ [\<lparr>state_file = f, state_vector = 1, state_count = 2\<rparr>])"
    using a by (induction l) auto
  show "sumPreviousFailures 2 (countFailure f 1 (countFailure f 1 l)) =
        sumPreviousFailures 2 l + 2"
    using 1 2 by (simp add: countFailure_def sumPreviousFailures_def sumLoop_total)
qed

theorem countFailure_sumPreviousFailures_witness:
  "countFailure ''test/a.js'' 1 [] =
     [\<lparr>state_file = ''test/a.js'', state_vector = 1, state_count = 1\<rparr>] \<and>
   countFailure ''test/a.js'' 2 [\<lparr>state_file = ''test/a.js'', state_vector = 1, state_count = 1\<rparr>] =
     [\<lparr>state_file = ''test/a.js'', state_vector = 1, state_count = 2\<rparr>] \<and>
   sumPreviousFailures 2 (countFailure ''test/a.js'' 1 (countFailure ''test/a.js'' 1 [])) = 2"
proof -
  have a: "''test/a.js'' \<notin> state_file ` set []" by simp
  have b: "''test/a.js'' \<in>
      state_file ` set [\<lparr>state_file = ''test/a.js'', state_vector = 1, state_count = 1\<rparr>]"
    by simp
  note t = countFailure_sumPreviousFailures [of "''test/a.js''" "[]" 1 2]
  from t [THEN conjunct1] a
  have 1: "countFailure ''test/a.js'' 1 [] =
       [\<lparr>state_file = ''test/a.js'', state_vector = 1, state_count = 1\<rparr>]"
    by simp
  from t [THEN conjunct2, THEN conjunct2, THEN conjunct2] a
  have 3: "sumPreviousFailures 2 (countFailure ''test/a.js'' 1 (countFailure ''test/a.js'' 1 [])) =
        sumPreviousFailures 2 [] + 2"
    by blast
  from countFailure_sumPreviousFailures
    [of "''test/a.js''" "[\<lparr>state_file = ''test/a.js'', state_vector = 1, state_count = 1\<rparr>]" 2 2,
      THEN conjunct2, THEN conjunct1] b
  obtain before state after where
    *: "[\<lparr>state_file = ''test/a.js'', state_vector = 1, state_count = 1::nat\<rparr>] = before @ state # after"
    "''test/a.js'' \<notin> state_file ` set before"
    "countFailure ''test/a.js'' 2 [\<lparr>state_file = ''test/a.js'', state_vector = 1, state_count = 1\<rparr>] =
           before @ \<lparr>state_file = ''test/a.js'', state_vector = state_vector state,
                      state_count = state_count state + 1\<rparr> # after"
    by blast
  from *(1) have "before = [] \<and> after = [] \<and>
      state = \<lparr>state_file = ''test/a.js'', state_vector = 1, state_count = 1\<rparr>"
    by (cases before) auto
  with *(3) have 2: "countFailure ''test/a.js'' 2
      [\<lparr>state_file = ''test/a.js'', state_vector = 1, state_count = 1\<rparr>] =
     [\<lparr>state_file = ''test/a.js'', state_vector = 1, state_count = 2\<rparr>]"
    by simp
  have "sumPreviousFailures 2 [] = 0" by (simp add: sumPreviousFailures_def)
  with 1 2 3 show ?thesis by simp
qed

text \<open>
  Claim C6, as stated, fails: no ledger the class can hold has two records of one file (at
  different positions), whatever their generations, because \<^verbatim>\<open>countFailure\<close> creates a
  record only when the file has none.
\<close>

theorem no_two_records_of_one_file:
  "\<not> (\<exists>l i j. reachableLedger l \<and> i < length l \<and> j < length l \<and> i \<noteq> j \<and>
         state_file (l ! i) = state_file (l ! j) \<and> state_vector (l ! i) \<noteq> state_vector (l ! j))"
proof
  assume "\<exists>l i j. reachableLedger l \<and> i < length l \<and> j < length l \<and> i \<noteq> j \<and>
         state_file (l ! i) = state_file (l ! j) \<and> state_vector (l ! i) \<noteq> state_vector (l ! j)"
  then obtain l i j where r: "reachableLedger l" and ij: "i < length l" "j < length l" "i \<noteq> j"
    and eq: "state_file (l ! i) = state_file (l ! j)" by blast
  from reachableLedger_distinct [OF r] have "distinct (map state_file l)" .
  with ij have "map state_file l ! i \<noteq> map state_file l ! j"
    using nth_eq_iff_index_eq [of "map state_file l" i j] by simp
  with ij eq show False by simp
qed

text \<open>
  Claim C6, amended. Every ledger the class can hold has at most one record per file; and
  pruning deletes every record of each pruned file, whatever its generation, and keeps the
  records of all other files.
\<close>

theorem one_record_per_file_and_prune:
  "(reachableLedger l \<longrightarrow> distinct (map state_file l)) \<and>
   (\<forall>f \<in> set files. f \<notin> state_file ` set (pruneFailures files l)) \<and>
   (\<forall>state \<in> set l. state_file state \<notin> set files \<longrightarrow> state \<in> set (pruneFailures files l))"
  by (auto simp: reachableLedger_distinct pruneFailures_def)

theorem one_record_per_file_and_prune_witness:
  "reachableLedger (countFailure ''b.js'' 3 (countFailure ''a.js'' 2 (countFailure ''a.js'' 1 []))) \<and>
   countFailure ''b.js'' 3 (countFailure ''a.js'' 2 (countFailure ''a.js'' 1 [])) =
     [\<lparr>state_file = ''a.js'', state_vector = 1, state_count = 2\<rparr>,
      \<lparr>state_file = ''b.js'', state_vector = 3, state_count = 1\<rparr>] \<and>
   distinct (map state_file
     (countFailure ''b.js'' 3 (countFailure ''a.js'' 2 (countFailure ''a.js'' 1 [])))) \<and>
   ''a.js'' \<notin> state_file ` set (pruneFailures [''a.js'']
     (countFailure ''b.js'' 3 (countFailure ''a.js'' 2 (countFailure ''a.js'' 1 [])))) \<and>
   \<lparr>state_file = ''b.js'', state_vector = 3, state_count = 1\<rparr> \<in> set (pruneFailures [''a.js'']
     (countFailure ''b.js'' 3 (countFailure ''a.js'' 2 (countFailure ''a.js'' 1 []))))"
proof -
  let ?l = "countFailure ''b.js'' 3 (countFailure ''a.js'' 2 (countFailure ''a.js'' 1 []))"
  have r: "reachableLedger ?l"
    by (intro reachableLedger.counted reachableLedger.initial)
  have v: "?l = [\<lparr>state_file = ''a.js'', state_vector = 1, state_count = 2\<rparr>,
      \<lparr>state_file = ''b.js'', state_vector = 3, state_count = 1\<rparr>]"
    by (simp add: countFailure_def)
  have m: "\<lparr>state_file = ''b.js'', state_vector = 3, state_count = 1\<rparr> \<in> set ?l"
    "state_file \<lparr>state_file = ''b.js'', state_vector = 3, state_count = 1\<rparr> \<notin> set [''a.js'']"
    "''a.js'' \<in> set [''a.js'']"
    unfolding v by simp_all
  from one_record_per_file_and_prune [of ?l "[''a.js'']"] r m v show ?thesis
    by blast
qed

section \<open>Facts about dispatching a run\<close>

lemma run_runVector_eq: "runVector (fst (run env fs u w)) = runVector w + 1"
  by (simp add: run_def Let_def split: prod.splits)

lemma run_clearLog:
  "run_clearLogOnNextRun (snd (run env fs u w)) = (clearLogOnNextRun w \<and> runVector w > 0)"
  by (simp add: run_def Let_def split: prod.splits)

lemma run_updateSnapshots_eq: "run_updateSnapshots (snd (run env fs u w)) = u"
  by (simp add: run_def Let_def split: prod.splits)

lemma run_previousFiles: "previousFiles (fst (run env fs u w)) = run_files (snd (run env fs u w))"
  by (simp add: run_def Let_def split: prod.splits)

lemma run_Nil_files: "run_files (snd (run env [] u w)) = []"
  by (simp add: run_def Let_def)

lemma run_Nil_runOnlyExclusive: "\<not> run_runOnlyExclusive (snd (run env [] u w))"
  by (simp add: run_def Let_def)

lemma run_files_eq:
  "fs \<noteq> [] \<Longrightarrow> run_files (snd (run env fs u w)) =
     filterFiles env
       (if length (filter (\<lambda>f. f \<in> set (filesWithExclusiveTests w)) fs) \<noteq>
           length (filesWithExclusiveTests w)
        then filesWithExclusiveTests w @ filter (\<lambda>f. f \<notin> set (filesWithExclusiveTests w)) fs
        else fs)"
proof -
  have "filter (\<lambda>f. f \<notin> set (filter (\<lambda>f. f \<in> set (filesWithExclusiveTests w)) fs)) fs =
      filter (\<lambda>f. f \<notin> set (filesWithExclusiveTests w)) fs"
    by (rule filter_cong) auto
  then show "fs \<noteq> [] \<Longrightarrow> ?thesis"
    by (simp add: run_def Let_def split: prod.splits)
qed

lemma run_runOnlyExclusive_eq:
  "fs \<noteq> [] \<Longrightarrow> run_runOnlyExclusive (snd (run env fs u w)) =
     (length (filter (\<lambda>f. f \<in> set (filesWithExclusiveTests w)) fs) \<noteq>
        length (filesWithExclusiveTests w))"
  by (simp add: run_def Let_def split: prod.splits)


lemma covers_iff_length:
  assumes "distinct fs" "distinct ex"
  shows "length (filter (\<lambda>f. f \<in> set ex) fs) = length ex \<longleftrightarrow> set ex \<subseteq> set fs"
proof -
  have d: "distinct (filter (\<lambda>f. f \<in> set ex) fs)" using assms by simp
  have s: "set (filter (\<lambda>f. f \<in> set ex) fs) = set ex \<inter> set fs" by auto
  have "length (filter (\<lambda>f. f \<in> set ex) fs) = card (set ex \<inter> set fs)"
    using distinct_card [OF d] s by simp
  moreover have "length ex = card (set ex)" using distinct_card [OF assms(2)] by simp
  moreover have "card (set ex \<inter> set fs) = card (set ex) \<longleftrightarrow> set ex \<subseteq> set fs"
  proof
    assume "card (set ex \<inter> set fs) = card (set ex)"
    then have "set ex \<inter> set fs = set ex"
      by (intro card_subset_eq) auto
    then show "set ex \<subseteq> set fs" by blast
  next
    assume "set ex \<subseteq> set fs"
    then have "set ex \<inter> set fs = set ex" by blast
    then show "card (set ex \<inter> set fs) = card (set ex)" by simp
  qed
  ultimately show ?thesis by simp
qed


text \<open>
  Claim C10. Whenever \<^verbatim>\<open>run\<close> is invoked while \<^verbatim>\<open>runVector\<close> is still 0, the
  \<^verbatim>\<open>clearLogOnNextRun\<close> option handed to \<^verbatim>\<open>api.run\<close> is false, whatever the stored
  flag is; this is the case of the run the constructor dispatches, and of no later run,
  since every dispatch leaves the counter positive.
\<close>

theorem first_run_never_clears:
  "(runVector w = 0 \<longrightarrow> \<not> run_clearLogOnNextRun (snd (run env fs u w))) \<and>
   \<not> run_clearLogOnNextRun (snd (constructor env)) \<and>
   runVector (fst (run env fs u w)) > 0"
  by (simp add: run_clearLog run_runVector_eq constructor_def rerunAll_def newWatcher_def)

theorem first_run_never_clears_witness:
  "runVector (newWatcher\<lparr>clearLogOnNextRun := True\<rparr>) = 0 \<and>
   clearLogOnNextRun (newWatcher\<lparr>clearLogOnNextRun := True\<rparr>) \<and>
   \<not> run_clearLogOnNextRun
        (snd (run (exampleEnv []) [''test/a.js''] False
           (newWatcher\<lparr>clearLogOnNextRun := True\<rparr>)))"
proof -
  have z: "runVector (newWatcher\<lparr>clearLogOnNextRun := True\<rparr>) = 0"
    by (simp add: newWatcher_def)
  from first_run_never_clears
    [of "newWatcher\<lparr>clearLogOnNextRun := True\<rparr>" "exampleEnv []" "[''test/a.js'']" False,
      THEN conjunct1] z
  have "\<not> run_clearLogOnNextRun
        (snd (run (exampleEnv []) [''test/a.js''] False
           (newWatcher\<lparr>clearLogOnNextRun := True\<rparr>)))"
    by blast
  with z show ?thesis by simp
qed

text \<open>
  Claim C3. The arrays stand for sets, so they hold no file twice. For a dispatch with a
  non-empty requested list that does not contain every file of
  \<^verbatim>\<open>filesWithExclusiveTests\<close>, the exclusive files followed by the requested files that
  are not exclusive (as a set: the union of the two) go through the pattern filters to
  \<^verbatim>\<open>api.run\<close>, unchanged when no filter is configured, and \<^verbatim>\<open>runOnlyExclusive\<close> is
  true. When the requested list contains every exclusive file, or is empty,
  \<^verbatim>\<open>runOnlyExclusive\<close> is false and the requested list itself goes on (an empty list
  untouched).
\<close>

theorem run_reconciles_exclusive:
  assumes "distinct fs" and "distinct (filesWithExclusiveTests w)"
  shows
    "(fs \<noteq> [] \<and> \<not> set (filesWithExclusiveTests w) \<subseteq> set fs \<longrightarrow>
        run_files (snd (run env fs u w)) =
          filterFiles env
            (filesWithExclusiveTests w @ filter (\<lambda>f. f \<notin> set (filesWithExclusiveTests w)) fs) \<and>
        (patternFilters env = [] \<longrightarrow>
           run_files (snd (run env fs u w)) =
             filesWithExclusiveTests w @ filter (\<lambda>f. f \<notin> set (filesWithExclusiveTests w)) fs) \<and>
        set (filesWithExclusiveTests w @ filter (\<lambda>f. f \<notin> set (filesWithExclusiveTests w)) fs) =
          set (filesWithExclusiveTests w) \<union> (set fs - set (filesWithExclusiveTests w)) \<and>
        run_runOnlyExclusive (snd (run env fs u w))) \<and>
     (fs = [] \<or> set (filesWithExclusiveTests w) \<subseteq> set fs \<longrightarrow>
        run_files (snd (run env fs u w)) = (if fs = [] then [] else filterFiles env fs) \<and>
        (patternFilters env = [] \<longrightarrow> run_files (snd (run env fs u w)) = fs) \<and>
        \<not> run_runOnlyExclusive (snd (run env fs u w)))"
proof (intro conjI impI)
  assume a: "fs \<noteq> [] \<and> \<not> set (filesWithExclusiveTests w) \<subseteq> set fs"
  with covers_iff_length [OF assms]
  have n: "length (filter (\<lambda>f. f \<in> set (filesWithExclusiveTests w)) fs) \<noteq>
      length (filesWithExclusiveTests w)" by simp
  from a n show f: "run_files (snd (run env fs u w)) =
          filterFiles env
            (filesWithExclusiveTests w @ filter (\<lambda>f. f \<notin> set (filesWithExclusiveTests w)) fs)"
    by (simp add: run_files_eq)
  from a n show "run_runOnlyExclusive (snd (run env fs u w))"
    by (simp add: run_runOnlyExclusive_eq)
  show "set (filesWithExclusiveTests w @ filter (\<lambda>f. f \<notin> set (filesWithExclusiveTests w)) fs) =
          set (filesWithExclusiveTests w) \<union> (set fs - set (filesWithExclusiveTests w))"
    by auto
  assume "patternFilters env = []"
  with f show "run_files (snd (run env fs u w)) =
      filesWithExclusiveTests w @ filter (\<lambda>f. f \<notin> set (filesWithExclusiveTests w)) fs"
    by (simp add: filterFiles_def)
next
  assume a: "fs = [] \<or> set (filesWithExclusiveTests w) \<subseteq> set fs"
  show f: "run_files (snd (run env fs u w)) = (if fs = [] then [] else filterFiles env fs)"
  proof (cases "fs = []")
    case True
    then show ?thesis by (simp add: run_Nil_files)
  next
    case False
    with a covers_iff_length [OF assms] show ?thesis by (simp add: run_files_eq)
  qed
  show "\<not> run_runOnlyExclusive (snd (run env fs u w))"
  proof (cases "fs = []")
    case True
    then show ?thesis by (simp add: run_Nil_runOnlyExclusive)
  next
    case False
    with a covers_iff_length [OF assms] show ?thesis by (simp add: run_runOnlyExclusive_eq)
  qed
  assume "patternFilters env = []"
  with f show "run_files (snd (run env fs u w)) = fs"
    by (simp add: filterFiles_def)
qed

text \<open>
  The example of the claim: \<open>A\<close> is exclusive, \<open>B\<close> alone is requested, there is no filter;
  \<open>A\<close> and \<open>B\<close> are run, with \<^verbatim>\<open>runOnlyExclusive\<close>. And a request that contains \<open>A\<close> is
  run as it is.
\<close>

theorem run_reconciles_exclusive_witness:
  "run_files (snd (run (exampleEnv []) [''B''] False
       (newWatcher\<lparr>filesWithExclusiveTests := [''A'']\<rparr>))) = [''A'', ''B''] \<and>
   run_runOnlyExclusive (snd (run (exampleEnv []) [''B''] False
       (newWatcher\<lparr>filesWithExclusiveTests := [''A'']\<rparr>))) \<and>
   run_files (snd (run (exampleEnv []) [''B'', ''A''] False
       (newWatcher\<lparr>filesWithExclusiveTests := [''A'']\<rparr>))) = [''B'', ''A''] \<and>
   \<not> run_runOnlyExclusive (snd (run (exampleEnv []) [''B'', ''A''] False
       (newWatcher\<lparr>filesWithExclusiveTests := [''A'']\<rparr>)))"
proof -
  let ?env = "exampleEnv []"
  let ?w = "newWatcher\<lparr>filesWithExclusiveTests := [''A'']\<rparr>"
  have ex: "filesWithExclusiveTests ?w = [''A'']" by (simp add: newWatcher_def)
  have d: "distinct [''B'']" "distinct [''B'', ''A'']" "distinct (filesWithExclusiveTests ?w)"
    by (simp_all add: ex)
  have nf: "patternFilters ?env = []" by (simp add: exampleEnv_def)
  have h1: "[''B''] \<noteq> [] \<and> \<not> set (filesWithExclusiveTests ?w) \<subseteq> set [''B'']"
    by (simp add: ex)
  have h2: "[''B'', ''A''] = [] \<or> set (filesWithExclusiveTests ?w) \<subseteq> set [''B'', ''A'']"
    by (simp add: ex)
  note t1 = run_reconciles_exclusive [OF d(1) d(3), of ?env False]
  note t2 = run_reconciles_exclusive [OF d(2) d(3), of ?env False]
  from t1 h1 nf have
    "run_files (snd (run ?env [''B''] False ?w)) =
       filesWithExclusiveTests ?w @ filter (\<lambda>f. f \<notin> set (filesWithExclusiveTests ?w)) [''B'']"
    "run_runOnlyExclusive (snd (run ?env [''B''] False ?w))"
    by blast+
  moreover from t2 h2 nf have
    "run_files (snd (run ?env [''B'', ''A''] False ?w)) = [''B'', ''A'']"
    "\<not> run_runOnlyExclusive (snd (run ?env [''B'', ''A''] False ?w))"
    by blast+
  ultimately show ?thesis
    by (simp add: ex)
qed

section \<open>Facts about the dependency tracker\<close>

lemma replaceFirst_None: "replaceFirst f deps tds = None \<longleftrightarrow> f \<notin> dep_file ` set tds"
  by (induction tds) auto

lemma replaceFirst_files:
  "replaceFirst f deps tds = Some tds' \<Longrightarrow> map dep_file tds' = map dep_file tds"
  by (induction tds arbitrary: tds') (auto split: if_splits)

lemma replaceFirst_dependencies:
  "replaceFirst f deps tds = Some tds' \<Longrightarrow> dep \<in> set tds' \<Longrightarrow>
     dependencies dep = deps \<or> dep \<in> set tds"
  by (induction tds arbitrary: tds') (auto split: if_splits)

lemma updateTestDependencies_tracked:
  "f \<in> dep_file ` set (updateTestDependencies env f deps tds) \<longleftrightarrow>
     addRewritten (providers env) f deps \<noteq> []"
proof (cases "addRewritten (providers env) f deps = []")
  case True
  then show ?thesis by (auto simp: updateTestDependencies_def)
next
  case False
  show ?thesis
  proof (cases "replaceFirst f (addRewritten (providers env) f deps) tds")
    case None
    with False show ?thesis by (simp add: updateTestDependencies_def)
  next
    case (Some tds')
    then have "f \<in> dep_file ` set tds"
      using replaceFirst_None [of f "addRewritten (providers env) f deps" tds] by auto
    moreover from replaceFirst_files [OF Some] have "dep_file ` set tds' = dep_file ` set tds"
      by (metis set_map)
    ultimately show ?thesis using False Some by (simp add: updateTestDependencies_def)
  qed
qed

lemma updateTestDependencies_nonempty:
  assumes "\<forall>dep \<in> set tds. dependencies dep \<noteq> []"
  shows "\<forall>dep \<in> set (updateTestDependencies env f deps tds). dependencies dep \<noteq> []"
proof (cases "addRewritten (providers env) f deps = []")
  case True
  with assms show ?thesis by (simp add: updateTestDependencies_def)
next
  case False
  show ?thesis
  proof (cases "replaceFirst f (addRewritten (providers env) f deps) tds")
    case None
    with False assms show ?thesis by (simp add: updateTestDependencies_def)
  next
    case (Some tds')
    from replaceFirst_dependencies [OF Some] False assms
    have "\<forall>dep \<in> set tds'. dependencies dep \<noteq> []" by metis
    with False Some show ?thesis by (simp add: updateTestDependencies_def)
  qed
qed

text \<open>
  Claim C2, as stated, fails: with a provider registered, the update with an empty
  dependency list keeps (and here rewrites) the entry of the file, since the provider's
  resolved path is put in front before the list is tested for emptiness.
\<close>

theorem update_with_provider_keeps_entry:
  "updateTestDependencies (exampleEnv [exampleProvider]) ''test/a.ts'' []
     [\<lparr>dep_file = ''test/a.ts'', dependencies = [''build/test/a.ts'', ''test/a.ts.snap'']\<rparr>] =
     [\<lparr>dep_file = ''test/a.ts'', dependencies = [''build/test/a.ts'']\<rparr>]"
  by (simp add: updateTestDependencies_def addRewritten_def exampleEnv_def exampleProvider_def)

text \<open>
  Claim C2, amended. When no provider is registered, the update with an empty dependency
  list deletes the entry of the file, and no other entry, so that the file has no tracked
  dependencies afterwards. With or without providers, an entry with an empty dependency
  list is never retained: if no entry has one before an update, none has one after it.
\<close>

theorem update_deletes_unless_resolved:
  "(providers env = [] \<longrightarrow>
      updateTestDependencies env f [] tds = filter (\<lambda>dep. dep_file dep \<noteq> f) tds \<and>
      f \<notin> dep_file ` set (updateTestDependencies env f [] tds)) \<and>
   ((\<forall>dep \<in> set tds. dependencies dep \<noteq> []) \<longrightarrow>
      (\<forall>dep \<in> set (updateTestDependencies env f deps tds). dependencies dep \<noteq> []))"
proof (intro conjI impI)
  assume "providers env = []"
  then show "updateTestDependencies env f [] tds = filter (\<lambda>dep. dep_file dep \<noteq> f) tds"
    by (simp add: updateTestDependencies_def addRewritten_def)
  then show "f \<notin> dep_file ` set (updateTestDependencies env f [] tds)"
    by auto
next
  assume "\<forall>dep \<in> set tds. dependencies dep \<noteq> []"
  then show "\<forall>dep \<in> set (updateTestDependencies env f deps tds). dependencies dep \<noteq> []"
    by (rule updateTestDependencies_nonempty)
qed

theorem update_deletes_unless_resolved_witness:
  "updateTestDependencies (exampleEnv []) ''test/a.js'' []
     [\<lparr>dep_file = ''test/a.js'', dependencies = [''test/a.js.snap'']\<rparr>,
      \<lparr>dep_file = ''test/b.js'', dependencies = [''test/b.js.snap'']\<rparr>] =
     [\<lparr>dep_file = ''test/b.js'', dependencies = [''test/b.js.snap'']\<rparr>] \<and>
   [] \<notin> dependencies ` set
     (updateTestDependencies (exampleEnv []) ''test/a.js'' [''test/a.js.snap'', ''x'']
       [\<lparr>dep_file = ''test/a.js'', dependencies = [''test/a.js.snap'']\<rparr>,
        \<lparr>dep_file = ''test/b.js'', dependencies = [''test/b.js.snap'']\<rparr>])"
proof -
  let ?tds = "[\<lparr>dep_file = ''test/a.js'', dependencies = [''test/a.js.snap'']\<rparr>,
      \<lparr>dep_file = ''test/b.js'', dependencies = [''test/b.js.snap'']\<rparr>]"
  have p: "providers (exampleEnv []) = []" by (simp add: exampleEnv_def)
  have n: "\<forall>dep \<in> set ?tds. dependencies dep \<noteq> []" by simp
  from update_deletes_unless_resolved [of "exampleEnv []" "''test/a.js''" ?tds] p
  have "updateTestDependencies (exampleEnv []) ''test/a.js'' [] ?tds =
      filter (\<lambda>dep. dep_file dep \<noteq> ''test/a.js'') ?tds"
    by blast
  moreover from
    update_deletes_unless_resolved [of "exampleEnv []" "''test/a.js''" ?tds "[''test/a.js.snap'', ''x'']"] n
  have "\<forall>dep \<in> set (updateTestDependencies (exampleEnv []) ''test/a.js''
      [''test/a.js.snap'', ''x''] ?tds). dependencies dep \<noteq> []"
    by blast
  then have "[] \<notin> dependencies ` set (updateTestDependencies (exampleEnv []) ''test/a.js''
      [''test/a.js.snap'', ''x''] ?tds)"
    by force
  ultimately show ?thesis by simp
qed


section \<open>Facts about the processing of a batch\<close>







lemmas example_defs =
  exampleWatcher_def exampleEnv_def exampleProvider_def constructor_def rerunAll_def
  newWatcher_def

lemmas batch_defs =
  survivingPaths_def dropIgnoredChanges_def cleanUnlinkedTests_def updateTestDependencies_def
  addRewritten_def updateExclusivity_def pruneFailures_def dependentsOf_def contains_def

lemmas run_defs = run_def filterFiles_def sumPreviousFailures_def newSet_def

lemma cleanUnlinkedTests_testDependencies:
  "testDependencies (cleanUnlinkedTests env us w) =
     fold (\<lambda>t. updateTestDependencies env t []) us (testDependencies w)"
  unfolding cleanUnlinkedTests_def by (induction us arbitrary: w) simp_all

lemma cleanUnlinkedTests_filesWithExclusiveTests:
  "filesWithExclusiveTests (cleanUnlinkedTests env us w) =
     fold (\<lambda>t. updateExclusivity t False) us (filesWithExclusiveTests w)"
  unfolding cleanUnlinkedTests_def by (induction us arbitrary: w) simp_all

lemma cleanUnlinkedTests_filesWithFailures:
  "filesWithFailures (cleanUnlinkedTests env us w) =
     fold (\<lambda>t. pruneFailures [t]) us (filesWithFailures w)"
  unfolding cleanUnlinkedTests_def by (induction us arbitrary: w) simp_all

lemma cleanUnlinkedTests_frame:
  "debouncer (cleanUnlinkedTests env us w) = debouncer w"
  "nextTimer (cleanUnlinkedTests env us w) = nextTimer w"
  "armed (cleanUnlinkedTests env us w) = armed w"
  "awaiting (cleanUnlinkedTests env us w) = awaiting w"
  "temporaryFiles (cleanUnlinkedTests env us w) = temporaryFiles w"
  "touchedFiles (cleanUnlinkedTests env us w) = touchedFiles w"
  "runVector (cleanUnlinkedTests env us w) = runVector w"
  "clearLogOnNextRun (cleanUnlinkedTests env us w) = clearLogOnNextRun w"
  "previousFiles (cleanUnlinkedTests env us w) = previousFiles w"
  "dirtyStates (cleanUnlinkedTests env us w) = dirtyStates w"
  unfolding cleanUnlinkedTests_def by (induction us arbitrary: w) simp_all

lemma run_frame:
  "debouncer (fst (run env fs u w)) = debouncer w"
  "nextTimer (fst (run env fs u w)) = nextTimer w"
  "armed (fst (run env fs u w)) = armed w"
  "awaiting (fst (run env fs u w)) = awaiting w"
  "temporaryFiles (fst (run env fs u w)) = temporaryFiles w"
  "testDependencies (fst (run env fs u w)) = testDependencies w"
  "filesWithExclusiveTests (fst (run env fs u w)) = filesWithExclusiveTests w"
  "dirtyStates (fst (run env fs u w)) = dirtyStates w"
  by (simp_all add: run_def Let_def split: prod.splits)

lemma runAfterChanges_frame:
  "debouncer (fst (runAfterChanges env w)) = debouncer w"
  "nextTimer (fst (runAfterChanges env w)) = nextTimer w"
  "armed (fst (runAfterChanges env w)) = armed w"
  "awaiting (fst (runAfterChanges env w)) = awaiting w"
  "temporaryFiles (fst (runAfterChanges env w)) = temporaryFiles w"
  by (simp_all add: runAfterChanges_def Let_def run_frame cleanUnlinkedTests_frame
      split: prod.splits)

lemma fold_pruneFailures:
  "fold (\<lambda>t. pruneFailures [t]) us l = pruneFailures us l"
proof (induction us arbitrary: l)
  case Nil
  then show ?case by (simp add: pruneFailures_def)
next
  case (Cons a us)
  have "pruneFailures us (pruneFailures [a] l) = pruneFailures (a # us) l"
    by (auto simp: pruneFailures_def intro: filter_cong)
  with Cons show ?case by simp
qed

lemma fold_updateExclusivity_False:
  "distinct fs \<Longrightarrow>
     fold (\<lambda>t. updateExclusivity t False) us fs = filter (\<lambda>f. f \<notin> set us) fs"
proof (induction us arbitrary: fs)
  case Nil
  then show ?case by simp
next
  case (Cons a us)
  from Cons.prems have r: "updateExclusivity a False fs = filter (\<lambda>f. f \<noteq> a) fs"
    by (auto simp: updateExclusivity_def distinct_remove1_removeAll removeAll_filter_not_eq
        intro: filter_cong filter_True [symmetric])
  from Cons.prems have "distinct (filter (\<lambda>f. f \<noteq> a) fs)" by simp
  from Cons.IH [OF this] r show ?case
    by (auto intro: filter_cong)
qed

lemma fold_updateTestDependencies_Nil:
  "providers env = [] \<Longrightarrow>
     fold (\<lambda>t. updateTestDependencies env t []) us tds =
       filter (\<lambda>dep. dep_file dep \<notin> set us) tds"
proof (induction us arbitrary: tds)
  case Nil
  then show ?case by simp
next
  case (Cons a us)
  from Cons.prems have "updateTestDependencies env a [] tds = filter (\<lambda>dep. dep_file dep \<noteq> a) tds"
    by (simp add: updateTestDependencies_def addRewritten_def)
  with Cons show ?case by (auto intro: filter_cong)
qed

text \<open>
  Deleted tests as the only change. When the paths left by the filtering are all deleted
  tests (none of them is dropped by the classification as ignored), no run is dispatched;
  the deleted tests leave \<^verbatim>\<open>filesWithExclusiveTests\<close> and \<^verbatim>\<open>filesWithFailures\<close>; and
  they leave \<^verbatim>\<open>testDependencies\<close> when no provider is registered.
\<close>

lemma runAfterChanges_only_unlinked:
  assumes "survivingPaths env w = (paths, touched')"
    and "sortPaths env (dirtyStates w) paths = ([], [], unlinked)"
    and "length unlinked = length paths"
    and "distinct (filesWithExclusiveTests w)"
    and "w' = fst (runAfterChanges env w)"
  shows "snd (runAfterChanges env w) = None"
    and "filesWithExclusiveTests w' = filter (\<lambda>f. f \<notin> set unlinked) (filesWithExclusiveTests w)"
    and "filesWithFailures w' = pruneFailures unlinked (filesWithFailures w)"
    and "providers env = [] \<Longrightarrow>
           testDependencies w' = filter (\<lambda>dep. dep_file dep \<notin> set unlinked) (testDependencies w)"
  using assms
  by (simp_all add: runAfterChanges_def Let_def cleanUnlinkedTests_filesWithExclusiveTests
      cleanUnlinkedTests_filesWithFailures cleanUnlinkedTests_testDependencies
      fold_pruneFailures fold_updateExclusivity_False fold_updateTestDependencies_Nil)












text \<open>
  Claim C4 fails on the code. A test file with a dependency entry, exclusive tests and a
  recorded failure is deleted, and a provider is registered: no run is dispatched and the
  file leaves \<^verbatim>\<open>filesWithExclusiveTests\<close> and \<^verbatim>\<open>filesWithFailures\<close>, but its entry in
  \<^verbatim>\<open>testDependencies\<close> stays, with the provider's resolved path as its only dependency.
\<close>

theorem unlinked_test_stays_tracked:
  "snd (runAfterChanges (exampleEnv [exampleProvider])
     ((exampleWatcher (exampleEnv [exampleProvider])
        [\<lparr>dep_file = ''test/a.ts'', dependencies = [''build/test/a.ts'', ''test/a.ts.snap'']\<rparr>]
        [(''test/a.ts'', ''unlink'')])
      \<lparr>filesWithExclusiveTests := [''test/a.ts''],
       filesWithFailures := [\<lparr>state_file = ''test/a.ts'', state_vector = 1, state_count = 1\<rparr>]\<rparr>))
     = None \<and>
   (\<lambda>w. (testDependencies w, filesWithExclusiveTests w, filesWithFailures w))
     (fst (runAfterChanges (exampleEnv [exampleProvider])
       ((exampleWatcher (exampleEnv [exampleProvider])
          [\<lparr>dep_file = ''test/a.ts'', dependencies = [''build/test/a.ts'', ''test/a.ts.snap'']\<rparr>]
          [(''test/a.ts'', ''unlink'')])
        \<lparr>filesWithExclusiveTests := [''test/a.ts''],
         filesWithFailures := [\<lparr>state_file = ''test/a.ts'', state_vector = 1, state_count = 1\<rparr>]\<rparr>)))
     = ([\<lparr>dep_file = ''test/a.ts'', dependencies = [''build/test/a.ts'']\<rparr>], [], [])"
  by (simp add: runAfterChanges_def example_defs batch_defs run_defs Let_def)

text \<open>
  Deleted tests together with an ignored path: a path that the classification drops as
  ignored by the watcher still counts in \<^verbatim>\<open>dirtyPaths.length\<close>. A deleted test and a
  change under \<^verbatim>\<open>node_modules/\<close> in one batch leave only the deleted test after the
  classification, and yet \<^verbatim>\<open>run\<close> is called with no files: all tests are run.
\<close>

lemma unlinked_test_and_ignored_path_rerun_all:
  "snd (runAfterChanges (exampleEnv [])
     (exampleWatcher (exampleEnv [])
        [\<lparr>dep_file = ''test/a.js'', dependencies = [''test/a.js.snap'']\<rparr>]
        [(''test/a.js'', ''unlink''), (''node_modules/x/index.js'', ''change'')])) =
   Some \<lparr>run_files = [], run_clearLogOnNextRun = True, run_previousFailures = 0,
      run_runOnlyExclusive = False, run_runVector = 2, run_updateSnapshots = False\<rparr> \<and>
   sortPaths (exampleEnv [])
     [(''test/a.js'', ''unlink''), (''node_modules/x/index.js'', ''change'')]
     [''test/a.js'', ''node_modules/x/index.js''] = ([], [], [''test/a.js''])"
  by (simp add: runAfterChanges_def example_defs batch_defs run_defs Let_def)


section \<open>Facts about the debouncer\<close>

lemma filter_fst_ne: "fst ` set (filter (\<lambda>(t', d). t' \<noteq> t) xs) = fst ` set xs - {t}"
  by (induction xs) auto

lemma filter_fst_id: "t \<notin> fst ` set xs \<Longrightarrow> filter (\<lambda>(t', d). t' \<noteq> t) xs = xs"
  by (induction xs) auto

lemma map_of_None_fst: "map_of xs t = None \<longleftrightarrow> t \<notin> fst ` set xs"
  by (simp add: map_of_eq_None_iff)

lemma timersFrom_armed_Nil:
  assumes "timersFrom n w" and "t \<in> fst ` set (awaiting w)" and "timer (debouncer w) = Some t"
  shows "armed w = []"
proof (cases "armed w")
  case Nil
  then show ?thesis .
next
  case (Cons a as)
  then have "fst a \<in> fst ` set (armed w)" by simp
  with assms(1) have "timer (debouncer w) = Some (fst a)" "fst a \<notin> fst ` set (awaiting w)"
    unfolding timersFrom_def by blast+
  with assms(2,3) show ?thesis by simp
qed

lemma timersFrom_no_timer_armed_Nil:
  assumes "timersFrom n w" and "timer (debouncer w) = None"
  shows "armed w = []"
proof (cases "armed w")
  case Nil
  then show ?thesis .
next
  case (Cons a as)
  then have "fst a \<in> fst ` set (armed w)" by simp
  with assms(1) have "timer (debouncer w) = Some (fst a)"
    unfolding timersFrom_def by blast
  with assms(2) show ?thesis by simp
qed

lemma timersFrom_frame:
  assumes "timersFrom n w"
    and "debouncer w' = debouncer w" "nextTimer w' = nextTimer w" "armed w' = armed w"
    "awaiting w' = awaiting w"
  shows "timersFrom n w'"
  using assms unfolding timersFrom_def by simp

lemma debounce_timersFrom:
  assumes "timersFrom n w"
  shows "timersFrom n (debounce delay w)"
proof (cases "timer (debouncer w)")
  case None
  from timersFrom_no_timer_armed_Nil [OF assms None] have "armed w = []" .
  with assms None show ?thesis
    unfolding timersFrom_def debounce_def Let_def by (auto simp: less_Suc_eq)
next
  case (Some t)
  with assms show ?thesis unfolding timersFrom_def debounce_def by simp
qed

lemma cancel_timersFrom:
  assumes "timersFrom n w"
  shows "timersFrom n (cancel w)"
proof (cases "timer (debouncer w)")
  case None
  with assms show ?thesis by (simp add: cancel_def)
next
  case (Some t)
  from assms Some have "fst ` set (armed w) \<subseteq> {t}"
    unfolding timersFrom_def by auto
  then have "fst ` set (filter (\<lambda>(t', d). t' \<noteq> t) (armed w)) = {}"
    unfolding filter_fst_ne by blast
  with assms Some show ?thesis
    unfolding timersFrom_def cancel_def by simp
qed

lemma expire_timersFrom:
  assumes "timersFrom n w"
  shows "timersFrom n (expire t w)"
proof (cases "map_of (armed w) t")
  case None
  with assms show ?thesis by (simp add: expire_def)
next
  case (Some d)
  then have "t \<in> fst ` set (armed w)"
    using map_of_None_fst [of "armed w" t] by auto
  with assms have cur: "timer (debouncer w) = Some t"
    unfolding timersFrom_def by blast
  with assms have "fst ` set (armed w) \<subseteq> {t}" "t < nextTimer w"
    unfolding timersFrom_def by auto
  then have "fst ` set (filter (\<lambda>(t', d). t' \<noteq> t) (armed w)) = {}" "t < nextTimer w"
    unfolding filter_fst_ne by blast+
  with assms Some show ?thesis
    unfolding timersFrom_def expire_def by simp
qed

lemma resume_timersFrom:
  assumes "timersFrom n w"
  shows "timersFrom n (fst (resume env t w))"
proof (cases "map_of (awaiting w) t")
  case None
  with assms show ?thesis by (simp add: resume_def)
next
  case (Some d)
  then have aw: "t \<in> fst ` set (awaiting w)"
    using map_of_None_fst [of "awaiting w" t] by auto
  let ?w = "w\<lparr>awaiting := filter (\<lambda>(t', d). t' \<noteq> t) (awaiting w)\<rparr>"
  have base: "timersFrom n ?w"
    using assms unfolding timersFrom_def by (auto simp: filter_fst_ne)
  show ?thesis
  proof (cases "timer (debouncer w) = Some t")
    case False
    with Some base show ?thesis by (simp add: resume_def callback_def)
  next
    case True
    from timersFrom_armed_Nil [OF assms aw True] have ar: "armed w = []" .
    let ?c = "?w\<lparr>debouncer := (debouncer ?w)\<lparr>timer := None, again := False\<rparr>\<rparr>"
    have cleared: "timersFrom n ?c"
      using base ar unfolding timersFrom_def by simp
    show ?thesis
    proof (cases "again (debouncer w)")
      case True
      from debounce_timersFrom [OF cleared, of "Some (d / 2)"] Some \<open>timer (debouncer w) = Some t\<close> True
      show ?thesis by (simp add: resume_def callback_def)
    next
      case False
      let ?r = "fst (runAfterChanges env ?w)"
      have "timersFrom n (?r\<lparr>debouncer := (debouncer ?r)\<lparr>timer := None, again := False\<rparr>\<rparr>)"
        using cleared unfolding timersFrom_def by (simp add: runAfterChanges_frame)
      with Some \<open>timer (debouncer w) = Some t\<close> False show ?thesis
        by (simp add: resume_def callback_def case_prod_beta)
    qed
  qed
qed

lemma stdinResume_timersFrom:
  assumes "timersFrom n w"
  shows "timersFrom n (fst (stdinResume env data w))"
proof -
  from cancel_timersFrom [OF assms] have "timersFrom n (cancel w)" .
  then show ?thesis
    unfolding timersFrom_def
    by (simp add: stdinResume_def Let_def updatePreviousSnapshots_def rerunAll_def run_frame)
qed

lemma step_timersFrom:
  assumes "timersFrom n w"
  shows "timersFrom n (fst (step env ev w))"
proof (cases ev)
  case (Debounce delay)
  with debounce_timersFrom [OF assms] show ?thesis by simp
next
  case Cancel
  with cancel_timersFrom [OF assms] show ?thesis by simp
next
  case (Expire t)
  with expire_timersFrom [OF assms] show ?thesis by simp
next
  case (Resume t)
  with resume_timersFrom [OF assms] show ?thesis by simp
next
  case (StdinData input)
  with cancel_timersFrom [OF assms] assms show ?thesis by (simp add: stdinData_def Let_def)
next
  case (StdinResume data)
  with stdinResume_timersFrom [OF assms] assms show ?thesis by simp
qed (use assms in \<open>simp_all add: timersFrom_def onAccessedSnapshots_def Let_def onTouchedFiles_def
      onWorkerFinished_def onRun_def onFailure_def runSettled_def split: option.splits\<close>)

lemma steps_timersFrom:
  "timersFrom n w \<Longrightarrow> timersFrom n (fst (steps env evs w))"
proof (induction evs arbitrary: w)
  case Nil
  then show ?case by simp
next
  case (Cons ev evs)
  from step_timersFrom [OF Cons.prems] have "timersFrom n (fst (step env ev w))" .
  from Cons.IH [OF this] show ?case
    by (simp add: Let_def case_prod_beta)
qed

lemma constructor_timersFrom: "timersFrom 0 (fst (constructor env))"
  unfolding timersFrom_def
  by (simp add: constructor_def rerunAll_def run_frame) (simp add: newWatcher_def)

lemma cancel_restarts_timers:
  assumes "timersFrom 0 w"
  shows "timersFrom (nextTimer w) (cancel w)"
proof -
  from cancel_timersFrom [OF assms] have c: "timersFrom 0 (cancel w)" .
  have "timer (debouncer (cancel w)) = None" "nextTimer (cancel w) = nextTimer w"
    by (simp_all add: cancel_def split: option.splits)
  with c show ?thesis unfolding timersFrom_def by simp
qed

lemma cancel_idempotent: "cancel (cancel w) = cancel w"
  by (simp add: cancel_def split: option.splits)


text \<open>
  Claim C9. Take any state \<open>w\<close> that a session reaches from the construction of the
  watcher, and any timer \<open>t\<close> created before: the timer that is scheduled or whose callback
  is suspended, or an earlier one. After \<^verbatim>\<open>cancel\<close>, whatever happens next, the timer is not
  scheduled (it cannot expire), and its callback, whether it runs from the guard on or
  resumes from its \<^verbatim>\<open>await\<close>, changes nothing in the watcher and dispatches no run: the
  guard \<^verbatim>\<open>this.timer !== timer\<close> returns, because the current timer is \<^verbatim>\<open>null\<close> or a
  timer created later. A second \<^verbatim>\<open>cancel\<close> changes nothing.
\<close>

theorem cancelled_timer_never_acts:
  assumes "w = fst (steps env earlier (fst (constructor env)))"
    and "t < nextTimer w"
    and "w' = fst (steps env later (cancel w))"
  shows "expire t w' = w' \<and>
     callback env t delay w' = (w', None) \<and>
     resume env t w' = (w'\<lparr>awaiting := filter (\<lambda>(t', d). t' \<noteq> t) (awaiting w')\<rparr>, None) \<and>
     cancel (cancel w) = cancel w"
proof -
  have "timersFrom 0 w"
    unfolding assms(1) by (intro steps_timersFrom constructor_timersFrom)
  from cancel_restarts_timers [OF this] have "timersFrom (nextTimer w) (cancel w)" .
  from steps_timersFrom [OF this] have inv: "timersFrom (nextTimer w) w'"
    unfolding assms(3) .
  with assms(2) have cur: "timer (debouncer w') \<noteq> Some t"
    unfolding timersFrom_def by auto
  with inv have "t \<notin> fst ` set (armed w')"
    unfolding timersFrom_def by blast
  then have "map_of (armed w') t = None" by (simp add: map_of_None_fst)
  then have 1: "expire t w' = w'" by (simp add: expire_def)
  from cur have 2: "callback env t delay w' = (w', None)" by (simp add: callback_def)
  have 3: "resume env t w' =
      (w'\<lparr>awaiting := filter (\<lambda>(t', d). t' \<noteq> t) (awaiting w')\<rparr>, None)"
  proof (cases "map_of (awaiting w') t")
    case None
    then have "filter (\<lambda>(t', d). t' \<noteq> t) (awaiting w') = awaiting w'"
      by (simp add: map_of_None_fst filter_fst_id)
    with None show ?thesis by (simp add: resume_def)
  next
    case (Some d)
    with cur show ?thesis by (simp add: resume_def callback_def)
  qed
  from 1 2 3 cancel_idempotent show ?thesis by blast
qed

text \<open>
  An instance of the race: the timer 0 has expired and its callback awaits the run in
  flight when \<^verbatim>\<open>cancel\<close> is called; a change arrives and a new timer is scheduled
  afterwards. The resumed callback of timer 0 dispatches nothing, and leaves the dirty
  state and the new timer alone.
\<close>

theorem cancelled_timer_never_acts_witness:
  "(0::nat) < nextTimer (fst (steps (exampleEnv []) [Debounce None, Expire 0]
       (fst (constructor (exampleEnv []))))) \<and>
   awaiting (cancel (fst (steps (exampleEnv []) [Debounce None, Expire 0]
       (fst (constructor (exampleEnv [])))))) = [(0, 100)] \<and>
   (\<lambda>(w, r). (dirtyStates w, timer (debouncer w), armed w, awaiting w, r))
     (resume (exampleEnv []) 0
       (fst (steps (exampleEnv []) [Dirty ''test/a.js'' ''change'', Debounce None]
         (cancel (fst (steps (exampleEnv []) [Debounce None, Expire 0]
           (fst (constructor (exampleEnv []))))))))) =
     ([(''test/a.js'', ''change'')], Some 1, [(1, 100)], [], None)"
proof -
  let ?env = "exampleEnv []"
  let ?w = "fst (steps ?env [Debounce None, Expire 0] (fst (constructor ?env)))"
  let ?w' = "fst (steps ?env [Dirty ''test/a.js'' ''change'', Debounce None] (cancel ?w))"
  have w: "?w = (fst (constructor ?env))
      \<lparr>debouncer := \<lparr>timer = Some 0, again = False\<rparr>, nextTimer := 1, awaiting := [(0, 100)]\<rparr>"
    by (simp add: example_defs run_defs debounce_def expire_def INITIAL_DEBOUNCE_DELAY_def
        Let_def)
  have n: "0 < nextTimer ?w" unfolding w by simp
  have c: "cancel ?w = (fst (constructor ?env))
      \<lparr>debouncer := \<lparr>timer = None, again = False\<rparr>, nextTimer := 1, awaiting := [(0, 100)]\<rparr>"
    unfolding w by (simp add: cancel_def example_defs run_defs Let_def)
  have w': "?w' = (fst (constructor ?env))
      \<lparr>debouncer := \<lparr>timer = Some 1, again = False\<rparr>, nextTimer := 2, awaiting := [(0, 100)],
        armed := [(1, 100)], dirtyStates := [(''test/a.js'', ''change'')]\<rparr>"
    unfolding c by (simp add: example_defs run_defs debounce_def INITIAL_DEBOUNCE_DELAY_def
        Let_def)
  from cancelled_timer_never_acts [OF refl n refl, of "[Dirty ''test/a.js'' ''change'', Debounce None]" 0]
  have "resume ?env 0 ?w' = (?w'\<lparr>awaiting := filter (\<lambda>(t', d). t' \<noteq> 0) (awaiting ?w')\<rparr>, None)"
    by blast
  then have "(\<lambda>(w, r). (dirtyStates w, timer (debouncer w), armed w, awaiting w, r))
      (resume ?env 0 ?w') = ([(''test/a.js'', ''change'')], Some 1, [(1, 100)], [], None)"
    unfolding w' by (simp add: example_defs run_defs Let_def)
  moreover have "awaiting (cancel ?w) = [(0, 100)]" unfolding c by simp
  ultimately show ?thesis using n by blast
qed

text \<open>
  Without the \<^verbatim>\<open>cancel\<close>, the same callback does act: it processes the batch and
  dispatches a run for the changed test.
\<close>

lemma uncancelled_timer_acts:
  "map_option run_files (snd (resume (exampleEnv []) 0
     (fst (steps (exampleEnv []) [Debounce None, Expire 0, Dirty ''test/a.js'' ''change'']
       (fst (constructor (exampleEnv []))))))) = Some [''test/a.js'']"
  by (simp add: example_defs run_defs batch_defs debounce_def expire_def resume_def callback_def
      runAfterChanges_def INITIAL_DEBOUNCE_DELAY_def Let_def)


section \<open>Facts about control input\<close>

lemma cancel_frame:
  "previousFiles (cancel w) = previousFiles w"
  "filesWithExclusiveTests (cancel w) = filesWithExclusiveTests w"
  "runVector (cancel w) = runVector w"
  "temporaryFiles (cancel w) = temporaryFiles w"
  by (simp_all add: cancel_def split: option.splits)

lemma observeStdin_u:
  "toLowerCase (trim input) = ''u'' \<Longrightarrow>
     observeStdin env input w =
       map_prod id Some
         (run env (previousFiles w) True
            ((cancel w)\<lparr>clearLogOnNextRun := False, dirtyStates := []\<rparr>))"
  by (simp add: observeStdin_def stdinData_def stdinResume_def updatePreviousSnapshots_def
      Let_def cancel_idempotent cancel_frame)

lemma observeStdin_r:
  "toLowerCase (trim input) = ''r'' \<or> toLowerCase (trim input) = ''rs'' \<Longrightarrow>
     observeStdin env input w =
       map_prod id Some
         (run env [] False ((cancel w)\<lparr>clearLogOnNextRun := False, dirtyStates := []\<rparr>))"
  by (auto simp: observeStdin_def stdinData_def stdinResume_def rerunAll_def
      Let_def cancel_idempotent)

lemma observeStdin_other:
  "toLowerCase (trim input) \<noteq> ''r'' \<Longrightarrow> toLowerCase (trim input) \<noteq> ''rs'' \<Longrightarrow>
   toLowerCase (trim input) \<noteq> ''u'' \<Longrightarrow> observeStdin env input w = (w, None)"
  by (simp add: observeStdin_def stdinData_def Let_def)

text \<open>
  A \<^verbatim>\<open>u\<close> right after a dispatch, with no pattern filter: the run repeats the files of
  that dispatch exactly.
\<close>

lemma run_then_u_repeats:
  assumes "patternFilters env = []" and "distinct fs" and "distinct (filesWithExclusiveTests w)"
    and "toLowerCase (trim input) = ''u''"
  shows "map_option run_files (snd (observeStdin env input (fst (run env fs u w)))) =
     Some (run_files (snd (run env fs u w)))"
proof -
  let ?ex = "filesWithExclusiveTests w"
  let ?w1 = "fst (run env fs u w)"
  let ?F = "run_files (snd (run env fs u w))"
  let ?c = "(cancel ?w1)\<lparr>clearLogOnNextRun := False, dirtyStates := []\<rparr>"
  have ex: "filesWithExclusiveTests ?c = ?ex" by (simp add: cancel_frame run_frame)
  have nf: "\<And>xs. filterFiles env xs = xs" using assms(1) by (simp add: filterFiles_def)
  have again: "run_files (snd (run env ?F True ?c)) = ?F"
  proof (cases "fs = []")
    case True
    then show ?thesis by (simp add: run_Nil_files)
  next
    case False
    show ?thesis
    proof (cases "set ?ex \<subseteq> set fs")
      case True
      with False covers_iff_length [OF assms(2,3)] have F: "?F = fs"
        by (simp add: run_files_eq nf)
      from True False covers_iff_length [OF assms(2,3)] show ?thesis
        unfolding F by (simp add: run_files_eq nf ex)
    next
      case ncov: False
      with False covers_iff_length [OF assms(2,3)]
      have F: "?F = ?ex @ filter (\<lambda>f. f \<notin> set ?ex) fs"
        by (simp add: run_files_eq nf)
      from ncov have ne: "?ex @ filter (\<lambda>f. f \<notin> set ?ex) fs \<noteq> []" by auto
      have d: "distinct (?ex @ filter (\<lambda>f. f \<notin> set ?ex) fs)"
        using assms(2,3) by auto
      have "set ?ex \<subseteq> set (?ex @ filter (\<lambda>f. f \<notin> set ?ex) fs)" by simp
      with covers_iff_length [OF d assms(3)]
      have "length (filter (\<lambda>f. f \<in> set ?ex) (?ex @ filter (\<lambda>f. f \<notin> set ?ex) fs)) =
          length ?ex" by blast
      with ne show ?thesis
        unfolding F by (simp only: run_files_eq [OF ne] ex nf if_False simp_thms)
    qed
  qed
  from observeStdin_u [OF assms(4), of env ?w1]
  have "observeStdin env input ?w1 = map_prod id Some (run env ?F True ?c)"
    by (simp add: run_previousFiles)
  with again show ?thesis by simp
qed


text \<open>
  In the class, \<^verbatim>\<open>u\<close> hands to \<^verbatim>\<open>api.run\<close> the previous run's file list itself when no
  pattern filter is configured and the list is empty or contains every file with exclusive
  tests (as it does right after the dispatch, see \<open>run_then_u_repeats\<close>).
\<close>

lemma observeStdin_u_files:
  assumes "toLowerCase (trim input) = ''u''" and "patternFilters env = []"
    and "distinct (previousFiles w)" and "distinct (filesWithExclusiveTests w)"
    and "previousFiles w = [] \<or> set (filesWithExclusiveTests w) \<subseteq> set (previousFiles w)"
  shows "map_option (\<lambda>r. (run_files r, run_updateSnapshots r)) (snd (observeStdin env input w)) =
     Some (previousFiles w, True)"
proof -
  let ?c = "(cancel w)\<lparr>clearLogOnNextRun := False, dirtyStates := []\<rparr>"
  have ex: "filesWithExclusiveTests ?c = filesWithExclusiveTests w" by (simp add: cancel_frame)
  have "run_files (snd (run env (previousFiles w) True ?c)) = previousFiles w"
  proof (cases "previousFiles w = []")
    case True
    then show ?thesis by (simp add: run_Nil_files)
  next
    case False
    with assms(5) covers_iff_length [OF assms(3,4)] show ?thesis
      by (simp add: run_files_eq ex filterFiles_def assms(2))
  qed
  with observeStdin_u [OF assms(1), of env w] show ?thesis
    by (simp add: run_updateSnapshots_eq)
qed

text \<open>
  The commands of the class as a terminal delivers them, with line ends, in upper case and
  with white space beyond ASCII (a no-break space, a byte order mark): \<^verbatim>\<open>U\<close> after a run
  of \<^verbatim>\<open>test/a.js\<close> runs that file again with \<^verbatim>\<open>updateSnapshots\<close>, \<^verbatim>\<open>RS\<close> and
  \<^verbatim>\<open>r\<close> run all tests, and \<^verbatim>\<open>x\<close> runs nothing.
\<close>

lemma observeStdin_examples:
  "map_option (\<lambda>r. (run_files r, run_updateSnapshots r))
     (snd (observeStdin (exampleEnv []) [CHR ''U'', CHR 0x0A]
        (fst (run (exampleEnv []) [''test/a.js''] False (fst (constructor (exampleEnv []))))))) =
     Some ([''test/a.js''], True) \<and>
   map_option (\<lambda>r. (run_files r, run_updateSnapshots r))
     (snd (observeStdin (exampleEnv [])
        [CHR 0xEF, CHR 0xBB, CHR 0xBF, CHR '' '', CHR ''R'', CHR ''S'', CHR 0x0D, CHR 0x0A]
        (fst (run (exampleEnv []) [''test/a.js''] False (fst (constructor (exampleEnv []))))))) =
     Some ([], False) \<and>
   map_option (\<lambda>r. (run_files r, run_updateSnapshots r))
     (snd (observeStdin (exampleEnv []) [CHR ''r'', CHR 0xC2, CHR 0xA0]
        (fst (run (exampleEnv []) [''test/a.js''] False (fst (constructor (exampleEnv []))))))) =
     Some ([], False) \<and>
   snd (observeStdin (exampleEnv []) [CHR ''x'', CHR 0x0A]
        (fst (run (exampleEnv []) [''test/a.js''] False (fst (constructor (exampleEnv [])))))) =
     None"
proof -
  let ?env = "exampleEnv []"
  let ?w = "fst (run ?env [''test/a.js''] False (fst (constructor ?env)))"
  have n: "toLowerCase (trim [CHR ''U'', CHR 0x0A]) = ''u''"
    "toLowerCase (trim [CHR 0xEF, CHR 0xBB, CHR 0xBF, CHR '' '', CHR ''R'', CHR ''S'', CHR 0x0D,
       CHR 0x0A]) = ''rs''"
    "toLowerCase (trim [CHR ''r'', CHR 0xC2, CHR 0xA0]) = ''r''"
    "toLowerCase (trim [CHR ''x'', CHR 0x0A]) = ''x''"
    by (simp_all add: toLowerCase_def trim_def whiteSpace_def)
  have pf: "previousFiles ?w = [''test/a.js'']"
    by (simp add: run_previousFiles run_files_eq filterFiles_def run_frame example_defs)
  have ex: "filesWithExclusiveTests ?w = []"
    by (simp add: run_frame example_defs)
  have nf: "patternFilters ?env = []" by (simp add: exampleEnv_def)
  have 1: "map_option (\<lambda>r. (run_files r, run_updateSnapshots r))
      (snd (observeStdin ?env [CHR ''U'', CHR 0x0A] ?w)) = Some ([''test/a.js''], True)"
    using observeStdin_u_files [OF n(1) nf, of ?w] by (simp add: pf ex)
  have 2: "map_option (\<lambda>r. (run_files r, run_updateSnapshots r))
      (snd (observeStdin ?env
        [CHR 0xEF, CHR 0xBB, CHR 0xBF, CHR '' '', CHR ''R'', CHR ''S'', CHR 0x0D, CHR 0x0A] ?w)) =
      Some ([], False)"
    using observeStdin_r [OF disjI2 [OF n(2)], of ?env ?w]
    by (simp add: run_Nil_files run_updateSnapshots_eq)
  have 3: "map_option (\<lambda>r. (run_files r, run_updateSnapshots r))
      (snd (observeStdin ?env [CHR ''r'', CHR 0xC2, CHR 0xA0] ?w)) = Some ([], False)"
    using observeStdin_r [OF disjI1 [OF n(3)], of ?env ?w]
    by (simp add: run_Nil_files run_updateSnapshots_eq)
  have 4: "snd (observeStdin ?env [CHR ''x'', CHR 0x0A] ?w) = None"
    using n(4) by (simp add: observeStdin_other)
  from 1 2 3 4 show ?thesis by blast
qed

text \<open>
  Claim C7 fails on the code of \<^verbatim>\<open>plan\<close>, which drives the sessions of \<^verbatim>\<open>start\<close>: its
  stdin handler tests for \<^verbatim>\<open>r\<close> and \<^verbatim>\<open>u\<close> only, and signals the empty file list for
  both, where the handler of the class knows \<^verbatim>\<open>rs\<close> as well and runs the previous run's
  files on \<^verbatim>\<open>u\<close>. After the first turn of the loop, \<^verbatim>\<open>rs\<close> dispatches nothing; and
  after a run of \<^verbatim>\<open>test/a.js\<close> alone, \<^verbatim>\<open>u\<close> dispatches a run of all tests, not of the
  previous run's files.
\<close>

theorem plan_ignores_rs_and_previous_files:
  "planNext (planStdin ''rs'' (reset newPlan)) = None \<and>
   map_option fst
     (planNext (planDebounce (exampleEnv []) (planFsEvent ''test/a.js'' (reset newPlan)))) =
     Some \<lparr>ins_files = [''test/a.js''], ins_firstRun = False, ins_previousFailures = 0,
            ins_runOnlyExclusive = False, ins_updateSnapshots = False\<rparr> \<and>
   map_option fst
     (planNext (planStdin ''u''
        (reset (planDebounce (exampleEnv []) (planFsEvent ''test/a.js'' (reset newPlan)))))) =
     Some \<lparr>ins_files = [], ins_firstRun = False, ins_previousFailures = 0,
            ins_runOnlyExclusive = False, ins_updateSnapshots = True\<rparr>"
  by (simp add: planNext_def planStdin_def planDebounce_def planFsEvent_def reset_def
      newPlan_def signalChanged_def exampleEnv_def filterFiles_def toLowerCase_def trim_def
      whiteSpace_def Let_def)

section \<open>Facts about temporary files\<close>

lemma dropKnown_temporary:
  "p \<in> temporary \<Longrightarrow> p \<notin> set (fst (dropKnown temporary touched ps))"
  by (induction ps arbitrary: touched) (auto simp: case_prod_beta)

lemma dropIgnoredChanges_subset: "set (dropIgnoredChanges ps paths) \<subseteq> set paths"
  unfolding dropIgnoredChanges_def by (induction ps arbitrary: paths) (simp, force)

text \<open>
  In the class \<^verbatim>\<open>Watcher\<close> no event removes a path from \<^verbatim>\<open>temporaryFiles\<close>, and a
  temporary path is dropped from every batch.
\<close>

lemma step_temporaryFiles: "temporaryFiles w \<subseteq> temporaryFiles (fst (step env ev w))"
proof (cases ev)
  case (Resume t)
  then show ?thesis
    by (simp add: resume_def callback_def debounce_def Let_def case_prod_beta
        runAfterChanges_frame split: option.splits)
next
  case (StdinResume data)
  then show ?thesis
    by (simp add: stdinResume_def updatePreviousSnapshots_def rerunAll_def Let_def run_frame
        cancel_frame)
qed (auto simp: debounce_def Let_def cancel_frame expire_def stdinData_def onAccessedSnapshots_def
    onTouchedFiles_def onWorkerFinished_def onRun_def onFailure_def runSettled_def
    split: option.splits)

lemma steps_temporaryFiles: "temporaryFiles w \<subseteq> temporaryFiles (fst (steps env evs w))"
proof (induction evs arbitrary: w)
  case Nil
  then show ?case by simp
next
  case (Cons ev evs)
  from step_temporaryFiles [of w env ev] Cons.IH [of "fst (step env ev w)"]
  show ?case by (simp add: Let_def case_prod_beta)
qed

lemma temporary_path_suppressed:
  assumes "p \<in> temporaryFiles w"
  shows "p \<notin> set (fst (survivingPaths env (fst (steps env evs w))))"
proof -
  let ?w = "fst (steps env evs w)"
  from assms steps_temporaryFiles [of w env evs] have "p \<in> temporaryFiles ?w" by blast
  from dropKnown_temporary [OF this] dropIgnoredChanges_subset
  show ?thesis by (fastforce simp: survivingPaths_def case_prod_beta)
qed

text \<open>
  Claim C8 fails on the code of \<^verbatim>\<open>plan\<close>: its debounce callback clears
  \<^verbatim>\<open>temporaryFiles\<close> with every batch it processes. A test run reports
  \<^verbatim>\<open>test/tmp.js\<close> as temporary; its creation is detected and suppressed, and the path is
  temporary no more; its deletion, detected separately, then triggers a run of it.
\<close>

theorem plan_forgets_temporary_files:
  "plan_temporaryFiles (planTouchedFiles [] [''test/tmp.js''] (reset newPlan)) =
     {''test/tmp.js''} \<and>
   (\<lambda>p. (plan_temporaryFiles p, changed p))
     (planDebounce (exampleEnv [])
        (planFsEvent ''test/tmp.js''
           (planTouchedFiles [] [''test/tmp.js''] (reset newPlan)))) = ({}, None) \<and>
   changed
     (planDebounce (exampleEnv [])
        (planFsEvent ''test/tmp.js''
           (planDebounce (exampleEnv [])
              (planFsEvent ''test/tmp.js''
                 (planTouchedFiles [] [''test/tmp.js''] (reset newPlan)))))) =
     Some [''test/tmp.js'']"
  by (simp add: planDebounce_def planFsEvent_def planTouchedFiles_def reset_def newPlan_def
      signalChanged_def exampleEnv_def filterFiles_def Let_def)


section \<open>Facts about the states of a session\<close>

lemma run_filesWithFailures:
  "filesWithFailures (fst (run env fs u w)) =
     (if fs = [] then filesWithFailures w
      else pruneFailures (run_files (snd (run env fs u w))) (filesWithFailures w))"
  by (simp add: run_def Let_def)

lemma run_reachableLedger:
  "reachableLedger (filesWithFailures w) \<Longrightarrow>
     reachableLedger (filesWithFailures (fst (run env fs u w)))"
  by (simp add: run_filesWithFailures reachableLedger.pruned)

lemma runAfterChanges_filesWithFailures:
  "reachableLedger (filesWithFailures w) \<Longrightarrow>
     reachableLedger (filesWithFailures (fst (runAfterChanges env w)))"
  by (simp add: runAfterChanges_def Let_def case_prod_beta run_reachableLedger
      cleanUnlinkedTests_filesWithFailures fold_pruneFailures reachableLedger.pruned)

lemma updateExclusivity_distinct:
  "distinct fs \<Longrightarrow> distinct (updateExclusivity f b fs)"
  by (simp add: updateExclusivity_def)

lemma runAfterChanges_filesWithExclusiveTests:
  "distinct (filesWithExclusiveTests w) \<Longrightarrow>
     distinct (filesWithExclusiveTests (fst (runAfterChanges env w)))"
  by (simp add: runAfterChanges_def Let_def case_prod_beta run_frame
      cleanUnlinkedTests_filesWithExclusiveTests fold_updateExclusivity_False)

text \<open>
  In every state of a session, \<^verbatim>\<open>filesWithFailures\<close> is one of the ledgers of
  \<open>reachableLedger\<close>, and \<^verbatim>\<open>filesWithExclusiveTests\<close> holds no file twice.
\<close>

lemma step_ledger_exclusive:
  assumes "reachableLedger (filesWithFailures w) \<and> distinct (filesWithExclusiveTests w)"
  shows "reachableLedger (filesWithFailures (fst (step env ev w))) \<and>
     distinct (filesWithExclusiveTests (fst (step env ev w)))"
proof (cases ev)
  case (Resume t)
  with assms show ?thesis
    by (simp add: resume_def callback_def debounce_def Let_def case_prod_beta
        runAfterChanges_filesWithFailures runAfterChanges_filesWithExclusiveTests
        split: option.splits)
next
  case (StdinResume data)
  with assms show ?thesis
    by (simp add: stdinResume_def updatePreviousSnapshots_def rerunAll_def Let_def run_frame
        run_reachableLedger cancel_def split: option.splits)
next
  case (Failure testFile currentVector)
  with assms show ?thesis
    by (simp add: onFailure_def reachableLedger.counted split: option.splits)
next
  case (RunEvent planFiles)
  with assms show ?thesis
    by (simp add: onRun_def reachableLedger.pruned)
next
  case (WorkerFinished testFile selectedTests declaredTests)
  with assms show ?thesis
    by (simp add: onWorkerFinished_def Let_def updateExclusivity_distinct)
qed (use assms in \<open>simp_all add: debounce_def Let_def cancel_def expire_def stdinData_def
    onAccessedSnapshots_def onTouchedFiles_def runSettled_def split: option.splits\<close>)

lemma steps_ledger_exclusive:
  "reachableLedger (filesWithFailures w) \<and> distinct (filesWithExclusiveTests w) \<Longrightarrow>
   reachableLedger (filesWithFailures (fst (steps env evs w))) \<and>
     distinct (filesWithExclusiveTests (fst (steps env evs w)))"
proof (induction evs arbitrary: w)
  case Nil
  then show ?case by simp
next
  case (Cons ev evs)
  from Cons.IH [OF step_ledger_exclusive [OF Cons.prems]] show ?case
    by (simp add: Let_def case_prod_beta)
qed

lemma session_ledger_exclusive:
  "reachableLedger (filesWithFailures (fst (steps env evs (fst (constructor env))))) \<and>
   distinct (filesWithExclusiveTests (fst (steps env evs (fst (constructor env)))))"
proof (rule steps_ledger_exclusive)
  show "reachableLedger (filesWithFailures (fst (constructor env))) \<and>
      distinct (filesWithExclusiveTests (fst (constructor env)))"
    by (simp add: constructor_def rerunAll_def run_frame run_filesWithFailures newWatcher_def
        reachableLedger.initial)
qed

end
